theory Spec2Isabelle
  imports Complex_Main
begin

section \<open>Values shared by the client\<close>

text \<open>
  Python \<open>bytes\<close> are lists of 8-bit characters. A \<open>str\<close> obtained by decoding bytes as
  latin-1 has one code point per byte, so it is a list of the same characters.
\<close>

type_synonym bytes = string

text \<open>
  The exceptions that the modelled code raises or lets through. \<open>RuntimeError\<close> carries its
  message, since the client tells a closed pool from a closed session by the message only.
  \<open>AsyncioTimeoutError\<close> is \<open>asyncio.TimeoutError\<close>; \<open>TimeoutError\<close> is the class of that
  name defined in \<open>client.py\<close>; \<open>OSError\<close> stands for a failure reported by the network;
  \<open>IncompleteReadError\<close> and \<open>LimitOverrunError\<close> are the ones of \<open>asyncio\<close>, raised by a
  stream reader at the end of the input and when a separator is not within its limit.
\<close>

datatype error =
    RuntimeError string
  | ValueError
  | IndexError
  | IncompleteReadError
  | AsyncioTimeoutError
  | TimeoutError string
  | OSError string
  | UnicodeEncodeError
  | LimitOverrunError

section \<open>Python sequences, byte strings and integers\<close>

text \<open>
  The slice \<open>xs[lo:hi]\<close>, \<open>xs[:hi]\<close> and \<open>xs[lo:]\<close> with Python's treatment of negative
  and out-of-range bounds.
\<close>

definition py_index :: "nat \<Rightarrow> int \<Rightarrow> nat" where
  "py_index n i = (if i < 0 then nat (int n + i) else min (nat i) n)"

definition slice :: "'a list \<Rightarrow> int \<Rightarrow> int \<Rightarrow> 'a list" where
  "slice xs lo hi =
     (let l = py_index (length xs) lo; h = py_index (length xs) hi
      in take (h - l) (drop l xs))"

definition slice_to :: "'a list \<Rightarrow> int \<Rightarrow> 'a list" where
  "slice_to xs hi = take (py_index (length xs) hi) xs"

definition slice_from :: "'a list \<Rightarrow> int \<Rightarrow> 'a list" where
  "slice_from xs lo = drop (py_index (length xs) lo) xs"

definition CRLF :: bytes where
  "CRLF = [CHR 0x0D, CHR 0x0A]"

fun starts_with :: "bytes \<Rightarrow> bytes \<Rightarrow> bool" where
  "starts_with xs [] = True"
| "starts_with [] (p # ps) = False"
| "starts_with (x # xs) (p # ps) = (x = p \<and> starts_with xs ps)"

text \<open>\<open>xs.find(sub)\<close>: the index of the first occurrence of \<open>sub\<close>, or \<open>-1\<close>.\<close>

fun find_at :: "bytes \<Rightarrow> nat \<Rightarrow> bytes \<Rightarrow> int" where
  "find_at sub k [] = (if sub = [] then int k else - 1)"
| "find_at sub k (x # xs) =
     (if starts_with (x # xs) sub then int k else find_at sub (Suc k) xs)"

definition bytes_find :: "bytes \<Rightarrow> bytes \<Rightarrow> int" where
  "bytes_find xs sub = find_at sub 0 xs"

text \<open>\<open>sub in xs\<close>.\<close>

definition contains :: "bytes \<Rightarrow> bytes \<Rightarrow> bool" where
  "contains xs sub = (0 \<le> bytes_find xs sub)"

text \<open>
  \<open>xs.split(sep, maxsplit)\<close> for a non-empty separator, scanning from the left;
  \<open>maxsplit = -1\<close> puts no bound on the number of splits. \<open>cur\<close> holds the bytes of the
  current field, last byte first.
\<close>

function split_go :: "bytes \<Rightarrow> int \<Rightarrow> bytes \<Rightarrow> bytes \<Rightarrow> bytes list" where
  "split_go sep k cur [] = [rev cur]"
| "split_go sep k cur (x # xs) =
     (if k \<noteq> 0 \<and> sep \<noteq> [] \<and> starts_with (x # xs) sep
      then rev cur # split_go sep (k - 1) [] (drop (length sep) (x # xs))
      else split_go sep k (x # cur) xs)"
  by pat_completeness auto
termination
  by (relation "measure (\<lambda>(sep, k, cur, xs). length xs)") auto

definition split_bytes :: "bytes \<Rightarrow> int \<Rightarrow> bytes \<Rightarrow> bytes list" where
  "split_bytes sep maxsplit xs = split_go sep maxsplit [] xs"

text \<open>
  The whitespace that \<open>bytes.strip()\<close> removes and that \<open>int()\<close> skips around a number
  given as bytes; for a number given as \<open>str\<close> the code points 0x85 and 0xA0 count as
  whitespace too.
\<close>

definition is_space :: "char \<Rightarrow> bool" where
  "is_space c = (c = CHR 0x20 \<or> c = CHR 0x09 \<or> c = CHR 0x0A \<or> c = CHR 0x0B
                 \<or> c = CHR 0x0C \<or> c = CHR 0x0D)"

definition str_space :: "char \<Rightarrow> bool" where
  "str_space c = (is_space c \<or> c = CHR 0x85 \<or> c = CHR 0xA0)"

definition strip :: "bytes \<Rightarrow> bytes" where
  "strip xs = rev (dropWhile is_space (rev (dropWhile is_space xs)))"

definition lower_char :: "char \<Rightarrow> char" where
  "lower_char c =
     (case map_of (zip ''ABCDEFGHIJKLMNOPQRSTUVWXYZ'' ''abcdefghijklmnopqrstuvwxyz'') c of
        Some l \<Rightarrow> l
      | None \<Rightarrow> c)"

text \<open>\<open>bytes.lower()\<close>: ASCII letters only.\<close>

definition lower :: "bytes \<Rightarrow> bytes" where
  "lower xs = map lower_char xs"

text \<open>
  \<open>int(s)\<close> and \<open>int(s, 16)\<close> as CPython converts a string: whitespace on both sides, an
  optional sign, for base 16 an optional \<open>0x\<close> prefix (which one underscore may follow),
  then digits with single underscores between them. \<open>None\<close> stands for the
  \<open>ValueError\<close> that \<open>int\<close> raises: for an invalid literal and, when the base is no power
  of two, for a literal of more than 4300 digits (the default of
  \<open>sys.int_max_str_digits\<close>).
\<close>

definition digit_value :: "char \<Rightarrow> nat option" where
  "digit_value c =
     (let n = (of_char c :: nat)
      in if 48 \<le> n \<and> n \<le> 57 then Some (n - 48)
         else if 97 \<le> n \<and> n \<le> 122 then Some (n - 87)
         else if 65 \<le> n \<and> n \<le> 90 then Some (n - 55)
         else None)"

fun scan_digits ::
  "nat \<Rightarrow> char \<Rightarrow> nat \<Rightarrow> nat \<Rightarrow> bytes \<Rightarrow> (nat \<times> nat \<times> char \<times> bytes) option" where
  "scan_digits base prev acc nd [] = Some (acc, nd, prev, [])"
| "scan_digits base prev acc nd (c # cs) =
     (if c = CHR ''_'' then
        (if prev = CHR ''_'' then None else scan_digits base c acc nd cs)
      else
        (case digit_value c of
           None \<Rightarrow> Some (acc, nd, prev, c # cs)
         | Some d \<Rightarrow>
             if d < base then scan_digits base c (acc * base + d) (Suc nd) cs
             else Some (acc, nd, prev, c # cs)))"

definition skip_sign :: "bytes \<Rightarrow> bool \<times> bytes" where
  "skip_sign s =
     (case s of
        [] \<Rightarrow> (False, [])
      | c # cs \<Rightarrow>
          if c = CHR ''+'' then (False, cs)
          else if c = CHR ''-'' then (True, cs)
          else (False, s))"

definition skip_prefix :: "nat \<Rightarrow> bytes \<Rightarrow> bytes" where
  "skip_prefix base s =
     (case s of
        c # x # rest \<Rightarrow>
          if base = 16 \<and> c = CHR ''0'' \<and> (x = CHR ''x'' \<or> x = CHR ''X'')
          then (case rest of u # rest' \<Rightarrow> if u = CHR ''_'' then rest' else rest | [] \<Rightarrow> rest)
          else s
      | _ \<Rightarrow> s)"

definition binary_base :: "nat \<Rightarrow> bool" where
  "binary_base base = (base = 2 \<or> base = 4 \<or> base = 8 \<or> base = 16 \<or> base = 32)"

definition max_str_digits :: nat where
  "max_str_digits = 4300"

definition py_int :: "(char \<Rightarrow> bool) \<Rightarrow> nat \<Rightarrow> bytes \<Rightarrow> int option" where
  "py_int space base s =
     (let (neg, s2) = skip_sign (dropWhile space s);
          s3 = skip_prefix base s2
      in if starts_with s3 ''_'' then None
         else
           (case scan_digits base (CHR 0x00) 0 0 s3 of
              None \<Rightarrow> None
            | Some (v, nd, prev, rest) \<Rightarrow>
                if nd = 0 \<or> prev = CHR ''_'' \<or> dropWhile space rest \<noteq> [] then None
                else if \<not> binary_base base \<and> max_str_digits < nd then None
                else Some (if neg then - int v else int v)))"

text \<open>\<open>str(n)\<close> for an integer.\<close>

definition digit_char :: "nat \<Rightarrow> char" where
  "digit_char d = ''0123456789'' ! d"

fun str_nat :: "nat \<Rightarrow> string" where
  "str_nat n = (if n < 10 then [digit_char n] else str_nat (n div 10) @ [digit_char (n mod 10)])"

declare str_nat.simps [simp del]

definition str_int :: "int \<Rightarrow> string" where
  "str_int i = (if i < 0 then CHR ''-'' # str_nat (nat (- i)) else str_nat (nat i))"

text \<open>
  A \<open>dict\<close> keeps its keys in insertion order: an association list with distinct keys.
  \<open>d[k] = v\<close> replaces the value of a key that is present and appends a new key.
\<close>

fun dict_set :: "'k \<Rightarrow> 'v \<Rightarrow> ('k \<times> 'v) list \<Rightarrow> ('k \<times> 'v) list" where
  "dict_set k v [] = [(k, v)]"
| "dict_set k v ((k', v') # d) =
     (if k' = k then (k', v) # d else (k', v') # dict_set k v d)"

definition dict_get :: "('k \<times> 'v) list \<Rightarrow> 'k \<Rightarrow> 'v option" where
  "dict_get d k = map_of d k"

definition dict_has :: "('k \<times> 'v) list \<Rightarrow> 'k \<Rightarrow> bool" where
  "dict_has d k = (map_of d k \<noteq> None)"

text \<open>\<open>{**d, **e}\<close>.\<close>

definition dict_merge :: "('k \<times> 'v) list \<Rightarrow> ('k \<times> 'v) list \<Rightarrow> ('k \<times> 'v) list" where
  "dict_merge d e = fold (\<lambda>(k, v). dict_set k v) e d"

section \<open>Response.iter\_content\<close>

text \<open>
  \<open>range(start, stop, step)\<close> for a positive step. The recursion stops once the index has
  reached \<open>stop\<close>.
\<close>

function range_up :: "int \<Rightarrow> int \<Rightarrow> int \<Rightarrow> int list" where
  "range_up i stop step =
     (if 0 < step \<and> i < stop then i # range_up (i + step) stop step else [])"
  by pat_completeness auto
termination
  by (relation "measure (\<lambda>(i, stop, step). nat (stop - i))") auto

declare range_up.simps [simp del]

text \<open>
  Python's \<open>range(start, stop, step)\<close>: a zero step raises \<open>ValueError\<close>; with a negative
  step and \<open>start \<le> stop\<close> (the only case \<open>iter_content\<close> produces, as \<open>start = 0\<close> and
  \<open>stop = len(body)\<close>) the range is empty.
\<close>

definition py_range :: "int \<Rightarrow> int \<Rightarrow> int \<Rightarrow> error + int list" where
  "py_range start stop step =
     (if step = 0 then Inl ValueError
      else if step < 0 \<and> start \<le> stop then Inr []
      else Inr (range_up start stop step))"

text \<open>
  \<open>iter_content\<close> is a generator; the model returns the list of the slices it yields, or the
  error that the first \<open>next()\<close> raises.
\<close>

definition iter_content :: "bytes \<Rightarrow> int \<Rightarrow> error + bytes list" where
  "iter_content content chunk_size =
     (case py_range 0 (int (length content)) chunk_size of
        Inl e \<Rightarrow> Inl e
      | Inr idx \<Rightarrow> Inr (map (\<lambda>i. slice content i (i + chunk_size)) idx))"

section \<open>The connection pool\<close>

text \<open>
  Stream readers and writers are objects with identity; the model names them by numbers.
  What the pool needs of a writer is \<open>is_closing()\<close> and \<open>close()\<close>: the set of the writers
  that are closing is threaded through every operation.
\<close>

type_synonym stream_reader = nat
type_synonym stream_writer = nat

datatype ssl_context = Default_Context | Unverified_Context

record connection_pool =
  host :: string
  port :: int
  ssl_context :: "ssl_context option"
  max_size :: int
  max_idle_time :: real
  available :: "(stream_reader \<times> stream_writer \<times> real) list"
  in_use :: "stream_writer set"
  pool_closed :: bool
  creating :: int

definition writer_close :: "stream_writer \<Rightarrow> stream_writer set \<Rightarrow> stream_writer set" where
  "writer_close w cl = insert w cl"

text \<open>
  \<open>_ConnectionPool.release\<close>; \<open>now\<close> is the reading of \<open>time.monotonic()\<close> taken when the
  connection is put back.
\<close>

definition release ::
  "connection_pool \<Rightarrow> stream_writer set \<Rightarrow> stream_reader \<Rightarrow> stream_writer \<Rightarrow> bool \<Rightarrow> real
     \<Rightarrow> connection_pool \<times> stream_writer set" where
  "release p cl reader writer keep_alive now =
     (let p1 = (if writer \<in> in_use p then p\<lparr>in_use := in_use p - {writer}\<rparr> else p)
      in if pool_closed p1 \<or> \<not> keep_alive \<or> writer \<in> cl then
           (p1, if writer \<notin> cl then writer_close writer cl else cl)
         else if int (length (available p1)) < max_size p1 then
           (p1\<lparr>available := (reader, writer, now) # available p1\<rparr>, cl)
         else (p1, writer_close writer cl))"

subsection \<open>Acquiring a connection and closing the pool\<close>

text \<open>
  \<open>_ConnectionPool.acquire\<close> and \<open>close\<close> need the world outside the client: the clock, and
  the outcome of opening a connection. Both are given by a \<open>network\<close>, as functions of the
  number of events that have happened so far; the \<open>world\<close> carries that number, the set of
  closing writers and the log of what was written to each writer.
\<close>

record network =
  monotonic :: "nat \<Rightarrow> real"
  open_connection ::
    "nat \<Rightarrow> string \<Rightarrow> int \<Rightarrow> ssl_context option \<Rightarrow> real option
       \<Rightarrow> error + (stream_reader \<times> stream_writer)"
  transmit :: "nat \<Rightarrow> stream_writer \<Rightarrow> bytes \<Rightarrow> error + bytes"

record world =
  closing :: "stream_writer set"
  events :: nat
  wire :: "(stream_writer \<times> bytes) list"

text \<open>The scan of the idle list at the start of \<open>acquire\<close>.\<close>

fun scan_available ::
  "real \<Rightarrow> real \<Rightarrow> (stream_reader \<times> stream_writer \<times> real) list \<Rightarrow> stream_writer set
     \<Rightarrow> (stream_reader \<times> stream_writer) option
        \<times> (stream_reader \<times> stream_writer \<times> real) list \<times> stream_writer set" where
  "scan_available now idle [] cl = (None, [], cl)"
| "scan_available now idle ((reader, writer, created) # rest) cl =
     (if writer \<notin> cl \<and> now - created \<le> idle then (Some (reader, writer), rest, cl)
      else scan_available now idle rest
             (if writer \<notin> cl then writer_close writer cl else cl))"

text \<open>Python's truth value of an optional number: \<open>None\<close> and zero are false.\<close>

definition truthy :: "real option \<Rightarrow> bool" where
  "truthy t = (case t of None \<Rightarrow> False | Some x \<Rightarrow> x \<noteq> 0)"

text \<open>
  \<open>_ConnectionPool.acquire\<close>. The oracle \<open>open_connection\<close> stands for
  \<open>_create_connection\<close>, under \<open>asyncio.wait_for\<close> when a timeout is given; the DNS
  cache of the pool, which only \<open>_create_connection\<close> uses, is part of the oracle.
\<close>

definition acquire ::
  "network \<Rightarrow> connection_pool \<Rightarrow> world \<Rightarrow> real option
     \<Rightarrow> (error + (stream_reader \<times> stream_writer)) \<times> connection_pool \<times> world" where
  "acquire net p w timeout =
     (if pool_closed p then (Inl (RuntimeError ''Pool is closed''), p, w)
      else
        (case scan_available (monotonic net (events w)) (max_idle_time p) (available p)
                (closing w) of
           (Some (reader, writer), rest, cl) \<Rightarrow>
             (Inr (reader, writer),
              p\<lparr>available := rest, in_use := insert writer (in_use p)\<rparr>,
              w\<lparr>closing := cl, events := Suc (events w)\<rparr>)
         | (None, rest, cl) \<Rightarrow>
             (let p1 = p\<lparr>available := rest, creating := creating p + 1 - 1\<rparr>;
                  w1 = w\<lparr>closing := cl, events := Suc (Suc (events w))\<rparr>
              in case open_connection net (Suc (events w)) (host p) (port p) (ssl_context p)
                        (if truthy timeout then timeout else None) of
                   Inl e \<Rightarrow>
                     (Inl (if e = AsyncioTimeoutError
                           then TimeoutError
                                  (''Connection timeout to '' @ host p @ '':'' @ str_int (port p))
                           else e),
                      p1, w1)
                 | Inr (reader, writer) \<Rightarrow>
                     (Inr (reader, writer), p1\<lparr>in_use := insert writer (in_use p1)\<rparr>, w1))))"

text \<open>\<open>_ConnectionPool.close\<close>.\<close>

definition pool_close :: "connection_pool \<Rightarrow> stream_writer set \<Rightarrow> connection_pool \<times> stream_writer set" where
  "pool_close p cl =
     (p\<lparr>pool_closed := True, available := [], in_use := {}\<rparr>,
      fold (\<lambda>(reader, writer, created) c. if writer \<notin> c then writer_close writer c else c)
        (available p) cl \<union> in_use p)"

section \<open>The response parser\<close>

text \<open>
  The parser and the builder modelled here are \<open>_SimpleHTTPParser\<close> and
  \<open>_SimpleHTTPBuilder\<close>, the classes that \<open>client.py\<close> defines and that a session uses
  when the optional fast parser is not installed.
\<close>

text \<open>
  A stream reader is modelled by the bytes that the peer sends before it stops sending:
  a read that needs more than what is left meets the end of the input. The three reading
  operations return what they read and what is left. The reader is the one that
  \<open>asyncio.open_connection\<close> creates when it is given no limit: its limit is 64 KiB.
\<close>

definition stream_limit :: int where
  "stream_limit = 65536"

text \<open>
  \<open>readuntil\<close> raises \<open>LimitOverrunError\<close> when the separator starts beyond the limit, or
  is not found although more bytes than the limit allows were searched; these outcomes
  do not depend on the pieces in which the bytes arrive.
\<close>

definition readuntil :: "bytes \<Rightarrow> bytes \<Rightarrow> error + (bytes \<times> bytes)" where
  "readuntil sep buf =
     (let i = bytes_find buf sep
      in if i < 0 then
           (if stream_limit < int (length buf) + 1 - int (length sep) then Inl LimitOverrunError
            else Inl IncompleteReadError)
         else if stream_limit < i then Inl LimitOverrunError
         else Inr (take (nat i + length sep) buf, drop (nat i + length sep) buf))"

definition readexactly :: "int \<Rightarrow> bytes \<Rightarrow> error + (bytes \<times> bytes)" where
  "readexactly n buf =
     (if n < 0 then Inl ValueError
      else if int (length buf) < n then Inl IncompleteReadError
      else Inr (take (nat n) buf, drop (nat n) buf))"

text \<open>
  \<open>readline\<close> returns the rest of the input when it ends before a line feed, and raises
  \<open>ValueError\<close> when \<open>readuntil\<close> raises \<open>LimitOverrunError\<close>.
\<close>

definition readline :: "bytes \<Rightarrow> error + (bytes \<times> bytes)" where
  "readline buf =
     (case readuntil [CHR 0x0A] buf of
        Inl e \<Rightarrow> if e = IncompleteReadError then Inr (buf, []) else Inl ValueError
      | Inr r \<Rightarrow> Inr r)"

record parser =
  status_code :: int
  reason :: string
  headers :: "(string \<times> string) list"
  body :: bytes
  keep_alive :: bool
  content_length :: "int option"
  chunked :: bool

definition new_parser :: parser where
  "new_parser =
     \<lparr>status_code = 0, reason = [], headers = [], body = [], keep_alive = True,
      content_length = None, chunked = False\<rparr>"

text \<open>The body of the loop over the header lines of \<open>parse\<close>, for a non-empty line.\<close>

definition header_line :: "bytes \<Rightarrow> parser \<Rightarrow> error + parser" where
  "header_line line ps =
     (let colon = bytes_find line '':''
      in if 0 < colon then
           (let key = slice_to line colon;
                val = strip (slice_from line (colon + 1));
                ps1 = ps\<lparr>headers := dict_set key val (headers ps)\<rparr>;
                kl_bytes = lower (slice_to line colon)
            in if kl_bytes = ''content-length'' then
                 (case py_int str_space 10 val of
                    None \<Rightarrow> Inl ValueError
                  | Some n \<Rightarrow> Inr (ps1\<lparr>content_length := Some n\<rparr>))
               else if kl_bytes = ''transfer-encoding'' then
                 (if contains (lower (slice_from line (colon + 1))) ''chunked''
                  then Inr (ps1\<lparr>chunked := True\<rparr>) else Inr ps1)
               else if kl_bytes = ''connection'' then
                 (if contains (lower (slice_from line (colon + 1))) ''close''
                  then Inr (ps1\<lparr>keep_alive := False\<rparr>) else Inr ps1)
               else Inr ps1)
         else Inr ps)"

fun header_loop :: "bytes list \<Rightarrow> parser \<Rightarrow> error + parser" where
  "header_loop [] ps = Inr ps"
| "header_loop (line # rest) ps =
     (if line = [] then Inr ps
      else (case header_line line ps of
              Inl e \<Rightarrow> Inl e
            | Inr ps1 \<Rightarrow> header_loop rest ps1))"

text \<open>
  The tests by which the loop over the header lines recognises a header: \<open>names_header\<close>
  is the comparison of the lower-cased name, \<open>chunked_line\<close> the test that sets
  \<open>_chunked\<close>. The loop reads the lines up to the first empty one.
\<close>

definition names_header :: "bytes \<Rightarrow> bytes \<Rightarrow> bool" where
  "names_header line name =
     (0 < bytes_find line '':'' \<and> lower (slice_to line (bytes_find line '':'')) = name)"

definition chunked_line :: "bytes \<Rightarrow> bool" where
  "chunked_line line =
     (names_header line ''transfer-encoding''
      \<and> contains (lower (slice_from line (bytes_find line '':'' + 1))) ''chunked'')"

definition lines_read :: "bytes list \<Rightarrow> bytes list" where
  "lines_read ls = takeWhile (\<lambda>l. l \<noteq> []) ls"

text \<open>
  The first part of \<open>parse\<close>, on the header block that \<open>readuntil\<close> returned: the status
  line, then the header lines.
\<close>

definition status_parts :: "bytes \<Rightarrow> bytes list" where
  "status_parts header_bytes =
     split_bytes '' '' 2 (slice_to header_bytes (bytes_find header_bytes CRLF))"

definition header_lines :: "bytes \<Rightarrow> bytes list" where
  "header_lines header_bytes =
     split_bytes CRLF (- 1) (slice header_bytes (bytes_find header_bytes CRLF + 2) (- 4))"

definition parse_head :: "bytes \<Rightarrow> error + parser" where
  "parse_head header_bytes =
     (let parts = status_parts header_bytes
      in if length parts < 2 then Inl IndexError
         else
           (case py_int is_space 10 (parts ! 1) of
              None \<Rightarrow> Inl ValueError
            | Some code \<Rightarrow>
                header_loop (header_lines header_bytes)
                  (new_parser\<lparr>status_code := code,
                     reason := (if 2 < length parts then parts ! 2 else [])\<rparr>)))"

lemma readexactly_length:
  "readexactly n buf = Inr (x, rest) \<Longrightarrow> int (length rest) = int (length buf) - n"
  by (auto simp: readexactly_def split: if_splits)

lemma readline_length:
  "readline buf = Inr (l, rest) \<Longrightarrow> length rest \<le> length buf"
  by (auto simp: readline_def readuntil_def Let_def split: sum.splits if_splits)

text \<open>
  The loop of \<open>_read_chunked\<close>. It ends on every input: each round that goes on has read
  the two bytes after a chunk.
\<close>

function read_chunks :: "bytes list \<Rightarrow> bytes \<Rightarrow> error + (bytes list \<times> bytes)" where
  "read_chunks chunks buf =
     (case readline buf of
        Inl e \<Rightarrow> Inl e
      | Inr (size_line, buf1) \<Rightarrow>
          (case split_bytes '';'' (- 1) (strip size_line) of
             [] \<Rightarrow> Inl IndexError
           | field # _ \<Rightarrow>
               (case py_int is_space 16 field of
                  None \<Rightarrow> Inl ValueError
                | Some sz \<Rightarrow>
                    if sz = 0 then
                      (case readline buf1 of
                         Inl e \<Rightarrow> Inl e
                       | Inr (line, rest) \<Rightarrow> Inr (chunks, rest))
                    else
                      (case readexactly sz buf1 of
                         Inl e \<Rightarrow> Inl e
                       | Inr (chunk, buf2) \<Rightarrow>
                           (case readexactly 2 buf2 of
                              Inl e \<Rightarrow> Inl e
                            | Inr (crlf, buf3) \<Rightarrow> read_chunks (chunks @ [chunk]) buf3)))))"
  by pat_completeness auto
termination
proof (relation "measure (\<lambda>(chunks, buf). length buf)", goal_cases)
  case 1
  show ?case by simp
next
  case (2 chunks buf b x y x21 x22 x2 ba xa ya bb xb yb)
  have "length y \<le> length buf"
    using 2(1,2) readline_length [of buf x y] by simp
  moreover have "int (length ya) = int (length y) - x2" "0 \<le> x2"
    using 2(6,7) readexactly_length [of x2 y xa ya]
    by (auto simp: readexactly_def split: if_splits)
  moreover have "int (length yb) = int (length ya) - 2"
    using 2(8,9) readexactly_length [of 2 ya xb yb] by simp
  moreover have "2 \<le> int (length ya)"
    using 2(8) by (auto simp: readexactly_def split: if_splits)
  ultimately show ?case by simp
qed

declare read_chunks.simps [simp del]

text \<open>\<open>_read_chunked\<close>: the loop, then the join of the chunks.\<close>

definition read_chunked :: "bytes \<Rightarrow> error + (bytes \<times> bytes)" where
  "read_chunked buf =
     (case read_chunks [] buf of
        Inl e \<Rightarrow> Inl e
      | Inr (chunks, rest) \<Rightarrow>
          Inr (if 1 < length chunks then concat chunks
               else (case chunks of [] \<Rightarrow> [] | c # _ \<Rightarrow> c), rest))"

text \<open>The last part of \<open>parse\<close>: the body, by the framing the headers announced.\<close>

definition parse_body :: "parser \<Rightarrow> bytes \<Rightarrow> error + (parser \<times> bytes)" where
  "parse_body ps buf =
     (if chunked ps then
        (case read_chunked buf of
           Inl e \<Rightarrow> Inl e
         | Inr (b, rest) \<Rightarrow> Inr (ps\<lparr>body := b\<rparr>, rest))
      else
        (case content_length ps of
           None \<Rightarrow> Inr (ps, buf)
         | Some n \<Rightarrow>
             if n = 0 then Inr (ps, buf)
             else
               (case readexactly n buf of
                  Inl e \<Rightarrow> Inl e
                | Inr (b, rest) \<Rightarrow> Inr (ps\<lparr>body := b\<rparr>, rest))))"

text \<open>
  \<open>_SimpleHTTPParser.parse\<close> on a fresh parser: the parser after the response has been
  read, and the input that is left.
\<close>

definition parse :: "bytes \<Rightarrow> error + (parser \<times> bytes)" where
  "parse buf =
     (case readuntil (CRLF @ CRLF) buf of
        Inl e \<Rightarrow> Inl e
      | Inr (header_bytes, buf1) \<Rightarrow>
          (case parse_head header_bytes of
             Inl e \<Rightarrow> Inl e
           | Inr ps \<Rightarrow> parse_body ps buf1))"

section \<open>The request builder\<close>

text \<open>
  A \<open>str\<close> is modelled with code points below 256. \<open>encode('ascii')\<close> fails on a code
  point from 128 on; \<open>encode('latin-1')\<close> is then the identity.
\<close>

definition encode_ascii :: "string \<Rightarrow> error + bytes" where
  "encode_ascii s = (if list_all (\<lambda>c. (of_char c :: nat) < 128) s then Inr s else Inl UnicodeEncodeError)"

text \<open>
  \<open>str.upper()\<close> on the ASCII letters and on the sharp s, whose upper case is \<open>SS\<close>. The
  upper case of any other code point from 128 on is again outside ASCII, so that leaving
  these unchanged gives the result of the source wherever the method is then encoded as
  ASCII.
\<close>

definition upper_char :: "char \<Rightarrow> string" where
  "upper_char c =
     (case map_of (zip ''abcdefghijklmnopqrstuvwxyz'' ''ABCDEFGHIJKLMNOPQRSTUVWXYZ'') c of
        Some u \<Rightarrow> [u]
      | None \<Rightarrow> if c = CHR 0xDF then ''SS'' else [c])"

definition upper :: "string \<Rightarrow> string" where
  "upper s = concat (map upper_char s)"

fun build_headers :: "(string \<times> string) list \<Rightarrow> error + bytes" where
  "build_headers [] = Inr []"
| "build_headers ((k, v) # hs) =
     (case encode_ascii k of
        Inl e \<Rightarrow> Inl e
      | Inr kb \<Rightarrow>
          (case build_headers hs of
             Inl e \<Rightarrow> Inl e
           | Inr rest \<Rightarrow> Inr (kb @ '': '' @ v @ CRLF @ rest)))"

text \<open>\<open>_SimpleHTTPBuilder.build\<close>.\<close>

definition build ::
  "string \<Rightarrow> string \<Rightarrow> (string \<times> string) list \<Rightarrow> bytes option \<Rightarrow> error + bytes" where
  "build meth path hs body_opt =
     (case encode_ascii meth of
        Inl e \<Rightarrow> Inl e
      | Inr m \<Rightarrow>
          (case encode_ascii path of
             Inl e \<Rightarrow> Inl e
           | Inr p \<Rightarrow>
               (case build_headers hs of
                  Inl e \<Rightarrow> Inl e
                | Inr h \<Rightarrow>
                    Inr (m @ '' '' @ p @ '' HTTP/1.1'' @ CRLF @ h @ CRLF
                         @ (case body_opt of None \<Rightarrow> [] | Some b \<Rightarrow> b)))))"

subsection \<open>The header lines of a request on the wire\<close>

text \<open>
  The header fields that a serialized request carries, read off the bytes the way the
  parser of this client splits a header block: the bytes up to and including the first
  empty line, cut after the first line, split at CRLF, up to the first empty piece.
  \<open>names_header\<close> then tells which of these lines bear a given name, letter case
  aside.
\<close>

definition header_block :: "bytes \<Rightarrow> bytes" where
  "header_block bs = take (nat (bytes_find bs (CRLF @ CRLF)) + 4) bs"

definition sent_fields :: "bytes \<Rightarrow> bytes list" where
  "sent_fields bs = lines_read (header_lines (header_block bs))"

text \<open>
  The builder copies names and values as they are. \<open>plain_field\<close> holds of a header
  whose name and value have no CR and no LF and whose name has no colon: the headers that
  occupy one line of the request each, under their own name. \<open>field_line\<close> is the line
  that the builder writes for a header.
\<close>

definition no_line_break :: "string \<Rightarrow> bool" where
  "no_line_break xs = (CHR 0x0D \<notin> set xs \<and> CHR 0x0A \<notin> set xs)"

definition plain_field :: "string \<times> string \<Rightarrow> bool" where
  "plain_field kv =
     (no_line_break (fst kv) \<and> CHR '':'' \<notin> set (fst kv) \<and> no_line_break (snd kv))"

definition field_line :: "string \<times> string \<Rightarrow> bytes" where
  "field_line kv = fst kv @ '': '' @ snd kv"

section \<open>The session\<close>

type_synonym header_dict = "(string \<times> string) list"

text \<open>
  An authentication object is used through \<open>apply\<close> only, which changes the headers of
  the request it is given.
\<close>

type_synonym auth_base = "header_dict \<Rightarrow> header_dict"

datatype json_value =
    JNull
  | JBool bool
  | JNumber int
  | JString string
  | JArray "json_value list"
  | JObject "(string \<times> json_value) list"

text \<open>The \<open>data\<close> argument: a \<open>dict\<close>, a \<open>str\<close> or \<open>bytes\<close>.\<close>

datatype body_data = Form "(string \<times> string) list" | Text string | Raw bytes

text \<open>What \<open>request\<close> reads of the result of \<open>urlparse\<close>.\<close>

record parsed_url =
  scheme :: string
  hostname :: "string option"
  url_port :: "int option"
  url_path :: string
  query :: string

text \<open>
  The functions of Python's library that \<open>request\<close> calls and that are not part of the
  client: they are parameters of the model.
\<close>

record stdlib =
  urlparse :: "string \<Rightarrow> parsed_url"
  urlencode :: "(string \<times> string) list \<Rightarrow> string"
  json_dumps :: "json_value \<Rightarrow> bytes"
  utf8 :: "string \<Rightarrow> bytes"

record session =
  pools :: "((string \<times> int \<times> bool) \<times> connection_pool) list"
  default_headers :: header_dict
  default_timeout :: "real option"
  ssl_contexts :: "(bool \<times> ssl_context) list"
  session_closed :: bool
  connector_limit :: int
  connector_limit_per_host :: int
  auth :: "auth_base option"
  verify :: bool

text \<open>The arguments of \<open>Session.request\<close>.\<close>

record request_args =
  http_method :: string
  url :: string
  headers_arg :: "header_dict option"
  params :: "(string \<times> string) list option"
  data :: "body_data option"
  json :: "json_value option"
  timeout :: "real option"
  verify_arg :: "bool option"
  allow_redirects :: bool
  max_redirects :: int
  auth_arg :: "auth_base option"

text \<open>The \<open>Response\<close>, without the time that the request took.\<close>

record response =
  resp_status_code :: int
  resp_headers :: header_dict
  resp_body :: bytes
  resp_url :: string
  resp_reason :: string

text \<open>\<open>Session._get_ssl_context\<close>.\<close>

definition get_ssl_context :: "bool \<Rightarrow> session \<Rightarrow> ssl_context \<times> session" where
  "get_ssl_context v s =
     (case dict_get (ssl_contexts s) v of
        None \<Rightarrow>
          (let ctx = (if v then Default_Context else Unverified_Context)
           in (ctx, s\<lparr>ssl_contexts := dict_set v ctx (ssl_contexts s)\<rparr>))
      | Some ctx \<Rightarrow> (ctx, s))"

text \<open>The pool that \<open>_ConnectionPool(host, port, ssl_context, max_size)\<close> constructs.\<close>

definition new_pool :: "string \<Rightarrow> int \<Rightarrow> ssl_context option \<Rightarrow> int \<Rightarrow> connection_pool" where
  "new_pool h p ctx size_limit =
     \<lparr>host = h, port = p, ssl_context = ctx, max_size = size_limit, max_idle_time = 30,
      available = [], in_use = {}, pool_closed = False, creating = 0\<rparr>"

text \<open>\<open>Session._get_pool\<close>.\<close>

definition get_pool ::
  "string \<Rightarrow> int \<Rightarrow> bool \<Rightarrow> bool \<Rightarrow> session \<Rightarrow> connection_pool \<times> session" where
  "get_pool h p is_ssl v s =
     (let key = (h, p, is_ssl)
      in case dict_get (pools s) key of
           Some pool \<Rightarrow> (pool, s)
         | None \<Rightarrow>
             (let (ssl_ctx, s1) =
                    (if is_ssl then (case get_ssl_context v s of (ctx, s') \<Rightarrow> (Some ctx, s'))
                     else (None, s));
                  pool = new_pool h p ssl_ctx (connector_limit_per_host s1)
              in (pool, s1\<lparr>pools := dict_set key pool (pools s1)\<rparr>)))"

text \<open>The host, the port and the path that \<open>request\<close> takes from the parsed URL.\<close>

definition url_host :: "parsed_url \<Rightarrow> string" where
  "url_host parsed = (case hostname parsed of None \<Rightarrow> [] | Some h \<Rightarrow> h)"

definition effective_port :: "parsed_url \<Rightarrow> int" where
  "effective_port parsed =
     (let dflt = (if scheme parsed = ''https'' then 443 else 80)
      in case url_port parsed of None \<Rightarrow> dflt | Some p \<Rightarrow> if p = 0 then dflt else p)"

definition request_path :: "stdlib \<Rightarrow> parsed_url \<Rightarrow> (string \<times> string) list option \<Rightarrow> string" where
  "request_path lib parsed ps =
     (let path0 = (if url_path parsed = [] then ''/'' else url_path parsed);
          path1 = (if query parsed \<noteq> [] then path0 @ ''?'' @ query parsed else path0)
      in case ps of
           None \<Rightarrow> path1
         | Some q \<Rightarrow>
             if q = [] then path1
             else path1 @ (if CHR ''?'' \<in> set path1 then ''&'' else ''?'') @ urlencode lib q)"

text \<open>The merge of the session's default headers with the headers of the call.\<close>

definition merged_headers :: "session \<Rightarrow> header_dict option \<Rightarrow> header_dict" where
  "merged_headers s hs =
     (case hs of
        None \<Rightarrow> default_headers s
      | Some h \<Rightarrow> if h = [] then default_headers s else dict_merge (default_headers s) h)"

text \<open>\<open>if k not in req_headers: req_headers[k] = v\<close>.\<close>

definition set_default :: "string \<Rightarrow> string \<Rightarrow> header_dict \<Rightarrow> header_dict" where
  "set_default k v h = (if dict_has h k then h else dict_set k v h)"

definition required_headers :: "string \<Rightarrow> int \<Rightarrow> header_dict \<Rightarrow> header_dict" where
  "required_headers hst prt h =
     set_default ''User-Agent'' ''arequest/0.2.0''
       (set_default ''Accept-Encoding'' ''identity''
          (set_default ''Accept'' ''*/*''
             (set_default ''Connection'' ''keep-alive''
                (set_default ''Host''
                   (if prt = 80 \<or> prt = 443 then hst else hst @ '':'' @ str_int prt) h))))"

definition apply_auth :: "session \<Rightarrow> request_args \<Rightarrow> header_dict \<Rightarrow> header_dict" where
  "apply_auth s a h =
     (case (case auth_arg a of Some f \<Rightarrow> Some f | None \<Rightarrow> auth s) of
        None \<Rightarrow> h
      | Some f \<Rightarrow> f h)"

text \<open>The body and its \<open>Content-Type\<close>: \<open>json\<close> before \<open>data\<close>.\<close>

definition encode_body :: "stdlib \<Rightarrow> request_args \<Rightarrow> header_dict \<Rightarrow> bytes option \<times> header_dict" where
  "encode_body lib a h =
     (case json a of
        Some j \<Rightarrow> (Some (json_dumps lib j), dict_set ''Content-Type'' ''application/json'' h)
      | None \<Rightarrow>
          (case data a of
             None \<Rightarrow> (None, h)
           | Some (Form d) \<Rightarrow>
               (Some (utf8 lib (urlencode lib d)),
                dict_set ''Content-Type'' ''application/x-www-form-urlencoded'' h)
           | Some (Text t) \<Rightarrow> (Some (utf8 lib t), h)
           | Some (Raw b) \<Rightarrow> (Some b, h)))"

text \<open>\<open>if body: req_headers['Content-Length'] = str(len(body))\<close>.\<close>

definition set_content_length :: "bytes option \<Rightarrow> header_dict \<Rightarrow> header_dict" where
  "set_content_length body_opt h =
     (case body_opt of
        None \<Rightarrow> h
      | Some b \<Rightarrow>
          if b = [] then h else dict_set ''Content-Length'' (str_int (int (length b))) h)"

text \<open>
  The part of \<open>request\<close> between the parsing of the URL and the call of the builder: the
  path, the headers and the body of the request.
\<close>

definition headers_before_body :: "session \<Rightarrow> request_args \<Rightarrow> parsed_url \<Rightarrow> header_dict" where
  "headers_before_body s a parsed =
     apply_auth s a
       (required_headers (url_host parsed) (effective_port parsed)
          (merged_headers s (headers_arg a)))"

definition prepare ::
  "stdlib \<Rightarrow> session \<Rightarrow> request_args \<Rightarrow> parsed_url \<Rightarrow> string \<times> header_dict \<times> bytes option" where
  "prepare lib s a parsed =
     (case encode_body lib a (headers_before_body s a parsed) of
        (body_opt, h) \<Rightarrow>
          (request_path lib parsed (params a), set_content_length body_opt h, body_opt))"

text \<open>
  What the handlers at the end of \<open>request\<close> raise for an exception \<open>e\<close>: a
  \<open>TimeoutError\<close> of the client for \<open>asyncio.TimeoutError\<close>, and \<open>e\<close> itself otherwise.
\<close>

definition request_error :: "string \<Rightarrow> error \<Rightarrow> error" where
  "request_error u e =
     (if e = AsyncioTimeoutError then TimeoutError (''Request timeout: '' @ u) else e)"

definition store_pool ::
  "string \<times> int \<times> bool \<Rightarrow> connection_pool \<Rightarrow> session \<Rightarrow> session" where
  "store_pool key p s = s\<lparr>pools := dict_set key p (pools s)\<rparr>"

text \<open>\<open>pool.release\<close> as \<open>request\<close> calls it, on the pool held under \<open>key\<close>.\<close>

definition release_to ::
  "network \<Rightarrow> string \<times> int \<times> bool \<Rightarrow> connection_pool \<Rightarrow> stream_reader \<Rightarrow> stream_writer
     \<Rightarrow> bool \<Rightarrow> session \<Rightarrow> world \<Rightarrow> session \<times> world" where
  "release_to net key p reader writer ka s w =
     (case release p (closing w) reader writer ka (monotonic net (events w)) of
        (p', cl) \<Rightarrow> (store_pool key p' s, w\<lparr>closing := cl, events := Suc (events w)\<rparr>))"

text \<open>
  The \<open>try\<close> block of \<open>request\<close> up to the release of the connection: one exchange on a
  connection of the pool. The oracle \<open>transmit\<close> stands for \<open>writer.write\<close> and
  \<open>writer.drain\<close>; when they succeed it gives the bytes that the reader then holds.
\<close>

definition transact ::
  "network \<Rightarrow> string \<Rightarrow> real option \<Rightarrow> string \<times> int \<times> bool \<Rightarrow> connection_pool \<Rightarrow> bytes
     \<Rightarrow> session \<Rightarrow> world \<Rightarrow> (error + response) \<times> session \<times> world" where
  "transact net u timeout_val key pool request_bytes s w =
     (case acquire net pool w timeout_val of
        (Inl e, p1, w1) \<Rightarrow> (Inl (request_error u e), store_pool key p1 s, w1)
      | (Inr (reader, writer), p1, w1) \<Rightarrow>
          (case transmit net (events w1) writer request_bytes of
             Inl e \<Rightarrow>
               (case release_to net key p1 reader writer False s
                       (w1\<lparr>events := Suc (events w1)\<rparr>) of
                  (s2, w2) \<Rightarrow> (Inl (request_error u e), s2, w2))
           | Inr received \<Rightarrow>
               (let w2 = w1\<lparr>events := Suc (events w1),
                             wire := wire w1 @ [(writer, request_bytes)]\<rparr>
                in case parse received of
                     Inl e \<Rightarrow>
                       (case release_to net key p1 reader writer False s w2 of
                          (s3, w3) \<Rightarrow> (Inl (request_error u e), s3, w3))
                   | Inr (ps, rest) \<Rightarrow>
                       (case release_to net key p1 reader writer (keep_alive ps) s w2 of
                          (s3, w3) \<Rightarrow>
                            (Inr \<lparr>resp_status_code = status_code ps, resp_headers = headers ps,
                                  resp_body = body ps, resp_url = u, resp_reason = reason ps\<rparr>,
                             s3, w3)))))"

text \<open>
  \<open>request\<close> from the parsing of the URL to the release of the connection: everything but
  the test of \<open>_closed\<close> at its start and the redirect at its end.
\<close>

definition exchange ::
  "network \<Rightarrow> stdlib \<Rightarrow> request_args \<Rightarrow> session \<Rightarrow> world
     \<Rightarrow> (error + response) \<times> session \<times> world" where
  "exchange net lib a s w =
     (let parsed = urlparse lib (url a);
          hst = url_host parsed;
          prt = effective_port parsed;
          is_ssl = (scheme parsed = ''https'');
          verify_ssl = (case verify_arg a of Some v \<Rightarrow> v | None \<Rightarrow> verify s)
      in case prepare lib s a parsed of
           (path, req_headers, body_opt) \<Rightarrow>
             (case build (upper (http_method a)) path req_headers body_opt of
                Inl e \<Rightarrow> (Inl e, s, w)
              | Inr request_bytes \<Rightarrow>
                  (case get_pool hst prt is_ssl verify_ssl s of
                     (pool, s1) \<Rightarrow>
                       transact net (url a)
                         (if truthy (timeout a) then timeout a else default_timeout s)
                         (hst, prt, is_ssl) pool request_bytes s1 w)))"

text \<open>The redirect at the end of \<open>request\<close>.\<close>

definition is_redirect :: "int \<Rightarrow> bool" where
  "is_redirect code = (code = 301 \<or> code = 302 \<or> code = 303 \<or> code = 307 \<or> code = 308)"

definition location :: "response \<Rightarrow> string" where
  "location resp = (case dict_get (resp_headers resp) ''Location'' of None \<Rightarrow> [] | Some l \<Rightarrow> l)"

definition follows :: "request_args \<Rightarrow> response \<Rightarrow> bool" where
  "follows a resp =
     (allow_redirects a \<and> is_redirect (resp_status_code resp) \<and> 0 < max_redirects a
      \<and> location resp \<noteq> [])"

text \<open>The arguments of the call that follows a redirect.\<close>

definition next_request :: "stdlib \<Rightarrow> request_args \<Rightarrow> response \<Rightarrow> request_args" where
  "next_request lib a resp =
     (let parsed = urlparse lib (url a);
          loc = location resp
      in a\<lparr>http_method := (if resp_status_code resp = 303 then ''GET'' else http_method a),
           url := (if starts_with loc ''http'' then loc
                   else scheme parsed @ ''://'' @ url_host parsed @ '':''
                          @ str_int (effective_port parsed) @ loc),
           params := None, data := None, json := None,
           allow_redirects := True, max_redirects := max_redirects a - 1,
           auth_arg := None\<rparr>)"

text \<open>
  \<open>Session.request\<close>. The call that follows a redirect has one redirect less to follow,
  which is why the recursion ends.
\<close>

function request ::
  "network \<Rightarrow> stdlib \<Rightarrow> request_args \<Rightarrow> session \<Rightarrow> world
     \<Rightarrow> (error + response) \<times> session \<times> world" where
  "request net lib a s w =
     (if session_closed s then (Inl (RuntimeError ''Session is closed''), s, w)
      else
        (case exchange net lib a s w of
           (Inl e, s1, w1) \<Rightarrow> (Inl e, s1, w1)
         | (Inr resp, s1, w1) \<Rightarrow>
             if follows a resp then request net lib (next_request lib a resp) s1 w1
             else (Inr resp, s1, w1)))"
  by pat_completeness auto
termination
  by (relation "measure (\<lambda>(net, lib, a, s, w). nat (max_redirects a))")
    (auto simp: follows_def next_request_def Let_def)

declare request.simps [simp del]

text \<open>\<open>Session.close\<close>.\<close>

definition session_close :: "session \<Rightarrow> world \<Rightarrow> session \<times> world" where
  "session_close s w =
     (if session_closed s then (s, w)
      else
        (s\<lparr>session_closed := True, pools := []\<rparr>,
         w\<lparr>closing := fold (\<lambda>(key, p) cl. snd (pool_close p cl)) (pools s) (closing w)\<rparr>))"


text \<open>
  The bytes that \<open>request\<close> writes to the connection: the builder applied to what
  \<open>prepare\<close> returns. \<open>content_length_lines\<close> keeps, of the header lines of these
  bytes, those named \<open>Content-Length\<close> in any letter case.
\<close>

definition request_bytes :: "stdlib \<Rightarrow> session \<Rightarrow> request_args \<Rightarrow> error + bytes" where
  "request_bytes lib s a =
     (case prepare lib s a (urlparse lib (url a)) of
        (path, h, body_opt) \<Rightarrow> build (upper (http_method a)) path h body_opt)"

definition content_length_lines :: "error + bytes \<Rightarrow> error + bytes list" where
  "content_length_lines r =
     (case r of
        Inl e \<Rightarrow> Inl e
      | Inr bs \<Rightarrow> Inr (filter (\<lambda>l. names_header l ''content-length'') (sent_fields bs)))"

section \<open>Worked inputs\<close>

text \<open>
  A pool of capacity 2 whose idle list is full: writer 2 was put back last (it is at the
  head), writer 0 first. Writer 4 is on loan.
\<close>

definition full_pool :: connection_pool where
  "full_pool =
     \<lparr>host = ''example.org'', port = 80, ssl_context = None, max_size = 2,
      max_idle_time = 30, available = [(3, 2, 1), (1, 0, 0)], in_use = {4},
      pool_closed = False, creating = 0\<rparr>"

text \<open>
  A response that announces both framings: a \<open>Content-Length\<close> of 3 and chunked transfer
  encoding, with a body of twelve bytes in three chunks.
\<close>

definition chunked_head :: bytes where
  "chunked_head =
     ''HTTP/1.1 200 OK'' @ CRLF @ ''Content-Length: 3'' @ CRLF
       @ ''Transfer-Encoding: chunked'' @ CRLF @ CRLF"

definition chunked_tail :: bytes where
  "chunked_tail =
     ''4'' @ CRLF @ ''Hell'' @ CRLF @ ''3'' @ CRLF @ ''o, '' @ CRLF
       @ ''5'' @ CRLF @ ''World'' @ CRLF @ ''0'' @ CRLF @ CRLF"

definition chunked_parser :: parser where
  "chunked_parser =
     \<lparr>status_code = 200, reason = ''OK'',
      headers = [(''Content-Length'', ''3''), (''Transfer-Encoding'', ''chunked'')],
      body = [], keep_alive = True, content_length = Some 3, chunked = True\<rparr>"





text \<open>
  A session and a world as they are at the start, and a network with a server that
  answers every \<open>POST\<close> with \<open>303 See Other\<close> and every other request with \<open>302 Found\<close>.
  \<open>toy_stdlib\<close> parses the URLs of that server; its other functions are placeholders.
\<close>

definition new_session :: session where
  "new_session =
     \<lparr>pools = [], default_headers = [], default_timeout = None, ssl_contexts = [],
      session_closed = False, connector_limit = 100, connector_limit_per_host = 30,
      auth = None, verify = True\<rparr>"

definition new_world :: world where
  "new_world = \<lparr>closing = {}, events = 0, wire = []\<rparr>"

definition see_other :: bytes where
  "see_other =
     ''HTTP/1.1 303 See Other'' @ CRLF @ ''Location: /y'' @ CRLF
       @ ''Content-Length: 0'' @ CRLF @ CRLF"

definition found :: bytes where
  "found = ''HTTP/1.1 302 Found'' @ CRLF @ ''Location: /z'' @ CRLF @ CRLF"

definition toy_network :: network where
  "toy_network =
     \<lparr>monotonic = real,
      open_connection = (\<lambda>n h p ctx t. Inr (n, n)),
      transmit = (\<lambda>n wr rq. Inr (if starts_with rq ''POST'' then see_other else found))\<rparr>"

definition toy_stdlib :: stdlib where
  "toy_stdlib =
     \<lparr>urlparse =
        (\<lambda>u. if starts_with u ''https://example.org''
             then \<lparr>scheme = ''https'', hostname = Some ''example.org'', url_port = None,
                   url_path = drop 19 u, query = []\<rparr>
             else if starts_with u ''http://example.org:443''
             then \<lparr>scheme = ''http'', hostname = Some ''example.org'', url_port = Some 443,
                   url_path = drop 22 u, query = []\<rparr>
             else if starts_with u ''http://example.org:80''
             then \<lparr>scheme = ''http'', hostname = Some ''example.org'', url_port = Some 80,
                   url_path = drop 21 u, query = []\<rparr>
             else \<lparr>scheme = ''http'', hostname = Some ''example.org'', url_port = None,
                   url_path = drop 18 u, query = []\<rparr>),
      urlencode = (\<lambda>q. []),
      json_dumps = (\<lambda>j. ''null''),
      utf8 = (\<lambda>t. t)\<rparr>"

text \<open>
  The arguments of a call \<open>request(m, u)\<close> that gives no keyword argument; a \<open>POST\<close> with
  a body that may follow one redirect; and the two responses of the server.
\<close>

definition default_args :: "string \<Rightarrow> string \<Rightarrow> request_args" where
  "default_args m u =
     \<lparr>http_method = m, url = u, headers_arg = None, params = None, data = None, json = None,
      timeout = None, verify_arg = None, allow_redirects = True, max_redirects = 10,
      auth_arg = None\<rparr>"

definition post_x :: request_args where
  "post_x = (default_args ''post'' ''http://example.org/x'')
              \<lparr>data := Some (Raw ''k=v''), max_redirects := 1\<rparr>"

definition see_other_response :: response where
  "see_other_response =
     \<lparr>resp_status_code = 303,
      resp_headers = [(''Location'', ''/y''), (''Content-Length'', ''0'')],
      resp_body = [], resp_url = ''http://example.org/x'', resp_reason = ''See Other''\<rparr>"

definition found_response :: response where
  "found_response =
     \<lparr>resp_status_code = 302, resp_headers = [(''Location'', ''/z'')],
      resp_body = [], resp_url = ''http://example.org:80/y'', resp_reason = ''Found''\<rparr>"

definition tls_get :: request_args where
  "tls_get = default_args ''GET'' ''https://example.org/''"

text \<open>
  The bytes that the builder returns for \<open>tls_get\<close> on a new session, and the outcome of
  a first request for \<open>tls_get\<close>, made with the session's own \<open>verify\<close>.
\<close>

definition tls_get_bytes :: bytes where
  "tls_get_bytes =
     ''GET / HTTP/1.1'' @ CRLF @ ''Host: example.org'' @ CRLF @ ''Connection: keep-alive'' @ CRLF
       @ ''Accept: */*'' @ CRLF @ ''Accept-Encoding: identity'' @ CRLF
       @ ''User-Agent: arequest/0.2.0'' @ CRLF @ CRLF"


text \<open>The bytes that the builder returns for \<open>post_x\<close> on a new session.\<close>

definition post_x_bytes :: bytes where
  "post_x_bytes =
     ''POST /x HTTP/1.1'' @ CRLF @ ''Host: example.org'' @ CRLF
       @ ''Connection: keep-alive'' @ CRLF @ ''Accept: */*'' @ CRLF
       @ ''Accept-Encoding: identity'' @ CRLF @ ''User-Agent: arequest/0.2.0'' @ CRLF
       @ ''Content-Length: 3'' @ CRLF @ CRLF @ ''k=v''"

section \<open>Properties of the pool\<close>

lemma release_available_cases:
  "available (fst (release p cl rd wr ka now)) =
     (if ka \<and> wr \<notin> cl \<and> \<not> pool_closed p \<and> int (length (available p)) < max_size p
      then (rd, wr, now) # available p else available p)"
  by (simp add: release_def Let_def)

lemma release_closing_cases:
  "snd (release p cl rd wr ka now) =
     (if ka \<and> wr \<notin> cl \<and> \<not> pool_closed p \<and> int (length (available p)) < max_size p
      then cl else insert wr cl)"
  by (auto simp: release_def Let_def writer_close_def)

text \<open>
  C1. A released connection is put at the head of the idle list exactly when it is kept
  alive, its writer is not closing, the pool is open and the idle list holds fewer than
  \<open>max_size\<close> entries. In every other case the idle list is left as it was and the writer
  is closing afterwards.
\<close>

theorem release_idle_iff:
  "(available (fst (release p cl rd wr ka now)) = (rd, wr, now) # available p
      \<longleftrightarrow> ka \<and> wr \<notin> cl \<and> \<not> pool_closed p \<and> int (length (available p)) < max_size p)
   \<and> (\<not> (ka \<and> wr \<notin> cl \<and> \<not> pool_closed p \<and> int (length (available p)) < max_size p)
        \<longrightarrow> available (fst (release p cl rd wr ka now)) = available p
            \<and> wr \<in> snd (release p cl rd wr ka now))"
  by (simp add: release_available_cases release_closing_cases)

theorem release_idle_iff_witness:
  "available (fst (release (full_pool\<lparr>max_size := 3\<rparr>) {} 5 4 True 7))
     = (5, 4, 7) # available full_pool
   \<and> available (fst (release full_pool {} 5 4 False 7)) = available full_pool
   \<and> 4 \<in> snd (release full_pool {} 5 4 False 7)"
  using release_idle_iff [of "full_pool\<lparr>max_size := 3\<rparr>" "{}" 5 4 True 7]
    release_idle_iff [of full_pool "{}" 5 4 False 7]
  by (simp add: full_pool_def)

text \<open>
  C2 as stated fails: releasing a keep-alive connection to an open pool whose idle list is
  full leaves the oldest idle connection (writer 0) in the idle list and open; the
  connection that is closed is the released one (writer 4).
\<close>

theorem release_full_keeps_oldest:
  "(1, 0, 0) \<in> set (available (fst (release full_pool {} 5 4 True 7)))
   \<and> 0 \<notin> snd (release full_pool {} 5 4 True 7)
   \<and> 4 \<in> snd (release full_pool {} 5 4 True 7)"
  by (simp add: release_def full_pool_def writer_close_def)

text \<open>
  C2, amended. Releasing a keep-alive connection to an open pool whose idle list is full
  closes the released connection and leaves the idle list and every other writer as they
  were; and no release makes an idle list that is within \<open>max_size\<close> exceed it.
\<close>

theorem release_full_drops_released:
  "(ka \<and> wr \<notin> cl \<and> \<not> pool_closed p \<and> int (length (available p)) = max_size p
      \<longrightarrow> available (fst (release p cl rd wr ka now)) = available p
          \<and> snd (release p cl rd wr ka now) = insert wr cl)
   \<and> (int (length (available p)) \<le> max_size p
      \<longrightarrow> int (length (available (fst (release p cl rd wr ka now))))
            \<le> max_size (fst (release p cl rd wr ka now)))"
  by (auto simp: release_def Let_def writer_close_def)

theorem release_full_drops_released_witness:
  "available (fst (release full_pool {} 5 4 True 7)) = [(3, 2, 1), (1, 0, 0)]
   \<and> snd (release full_pool {} 5 4 True 7) = {4}
   \<and> int (length (available (fst (release full_pool {} 5 4 True 7)))) \<le> 2"
  using release_full_drops_released [of True 4 "{}" full_pool 5 7]
  by (simp add: full_pool_def)

section \<open>Closed sessions and closed pools\<close>

text \<open>
  C7. A request on a closed session fails with the \<open>RuntimeError\<close> that says so, which is
  how the source signals a closed session, and leaves the session closed, so that every
  later request fails alike; \<open>close\<close> leaves the session closed. \<open>acquire\<close> on a closed
  pool fails with the \<open>RuntimeError\<close> that says the pool is closed.
\<close>

theorem closed_session_and_pool_fail:
  "(session_closed s \<longrightarrow>
      request net lib a s w = (Inl (RuntimeError ''Session is closed''), s, w))
   \<and> session_closed (fst (session_close s w))
   \<and> request net lib a (fst (session_close s w)) w'
       = (Inl (RuntimeError ''Session is closed''), fst (session_close s w), w')
   \<and> (pool_closed p \<longrightarrow> acquire net p w t = (Inl (RuntimeError ''Pool is closed''), p, w))
   \<and> pool_closed (fst (pool_close p cl))"
proof -
  have c: "session_closed (fst (session_close s w))"
    by (simp add: session_close_def)
  have r: "request net lib a s' w'' = (Inl (RuntimeError ''Session is closed''), s', w'')"
    if "session_closed s'" for s' w''
    using that by (subst request.simps) simp
  show ?thesis
    using c r by (simp add: acquire_def pool_close_def)
qed

theorem closed_session_and_pool_fail_witness:
  "fst (request toy_network toy_stdlib post_x (fst (session_close new_session new_world)) new_world)
     = Inl (RuntimeError ''Session is closed'')
   \<and> fst (acquire toy_network (fst (pool_close full_pool {})) new_world None)
     = Inl (RuntimeError ''Pool is closed'')"
proof -
  let ?s = "fst (session_close new_session new_world)"
  let ?p = "fst (pool_close full_pool {})"
  have c: "session_closed ?s" "pool_closed ?p"
    using closed_session_and_pool_fail [where s = new_session and w = new_world
        and p = full_pool and cl = "{}"]
    by simp_all
  show ?thesis
    using closed_session_and_pool_fail [where s = ?s and net = toy_network
        and lib = toy_stdlib and a = post_x and w = new_world and p = ?p and t = None] c
    by simp
qed

section \<open>Properties of the response parser\<close>

subsection \<open>The kinds of failure\<close>

lemma readuntil_error:
  "readuntil sep buf = Inl e \<Longrightarrow> e = IncompleteReadError \<or> e = LimitOverrunError"
  by (auto simp: readuntil_def Let_def split: if_splits)

lemma readline_error: "readline buf = Inl e \<Longrightarrow> e = ValueError"
  by (auto simp: readline_def split: sum.splits if_splits)

lemma readexactly_error:
  "readexactly n buf = Inl e \<Longrightarrow> e = ValueError \<or> e = IncompleteReadError"
  by (auto simp: readexactly_def split: if_splits)

lemma header_line_error: "header_line line ps = Inl e \<Longrightarrow> e = ValueError"
  by (auto simp: header_line_def Let_def split: if_splits option.splits)

lemma header_loop_error: "header_loop ls ps = Inl e \<Longrightarrow> e = ValueError"
proof (induction ls arbitrary: ps)
  case Nil
  then show ?case by simp
next
  case (Cons l ls)
  then show ?case
    by (auto split: if_splits sum.splits dest: header_line_error)
qed

lemma parse_head_error: "parse_head hb = Inl e \<Longrightarrow> e = IndexError \<or> e = ValueError"
  by (auto simp: parse_head_def Let_def split: if_splits option.splits dest: header_loop_error)

lemma read_chunks_error:
  "read_chunks chunks buf = Inl e \<Longrightarrow>
   e = IndexError \<or> e = ValueError \<or> e = IncompleteReadError"
proof (induction chunks buf rule: read_chunks.induct)
  case (1 chunks buf)
  from 1(2) show ?case
    apply (subst (asm) read_chunks.simps)
    apply (auto split: prod.splits list.splits option.splits if_splits sum.splits
        dest: readexactly_error readline_error)
    apply (metis 1(1))
    done
qed

lemma read_chunked_error:
  "read_chunked buf = Inl e \<Longrightarrow>
   e = IndexError \<or> e = ValueError \<or> e = IncompleteReadError"
  by (auto simp: read_chunked_def split: sum.splits dest: read_chunks_error)

lemma parse_body_error:
  "parse_body ps buf = Inl e \<Longrightarrow>
   e = IndexError \<or> e = ValueError \<or> e = IncompleteReadError"
  by (auto simp: parse_body_def split: if_splits sum.splits option.splits
      dest: read_chunked_error readexactly_error)

lemma parse_error:
  "parse buf = Inl e \<Longrightarrow>
   e = IndexError \<or> e = ValueError \<or> e = IncompleteReadError \<or> e = LimitOverrunError"
  by (auto simp: parse_def split: sum.splits
      dest: readuntil_error parse_head_error parse_body_error)

lemma digit_value_decimal:
  "c \<in> set ''0123456789'' \<Longrightarrow> \<exists>d. digit_value c = Some d \<and> d < 10"
  by (auto simp: digit_value_def)

lemma scan_digits_decimal:
  "\<forall>c \<in> set ds. c \<in> set ''0123456789'' \<Longrightarrow>
   \<exists>v p. scan_digits 10 prev acc nd ds = Some (v, nd + length ds, p, [])"
proof (induction ds arbitrary: prev acc nd)
  case Nil
  then show ?case by simp
next
  case (Cons c ds)
  obtain d where d: "digit_value c = Some d" "d < 10"
    using Cons.prems digit_value_decimal [of c] by auto
  have u: "c \<noteq> CHR ''_''" using Cons.prems by auto
  obtain v p where "scan_digits 10 c (acc * 10 + d) (Suc nd) ds = Some (v, Suc nd + length ds, p, [])"
    using Cons.IH [of c "acc * 10 + d" "Suc nd"] Cons.prems by auto
  then show ?case using d u by simp
qed

lemma py_int_digit_limit:
  assumes "\<forall>c \<in> set ds. c \<in> set ''0123456789''" and "max_str_digits < length ds"
  shows "py_int is_space 10 ds = None"
proof -
  obtain c cs where ds: "ds = c # cs"
    using assms(2) by (cases ds) (auto simp: max_str_digits_def)
  have c: "c \<in> set ''0123456789''" using assms(1) ds by simp
  have sp: "dropWhile is_space ds = ds"
    using c unfolding ds by (auto simp: is_space_def)
  have sg: "skip_sign ds = (False, ds)"
    using c unfolding ds by (auto simp: skip_sign_def)
  have pf: "skip_prefix 10 ds = ds"
    by (simp add: skip_prefix_def split: list.splits)
  have us: "\<not> starts_with ds ''_''"
    using c unfolding ds by auto
  obtain v p where sc: "scan_digits 10 (CHR 0x00) 0 0 ds = Some (v, length ds, p, [])"
    using scan_digits_decimal [OF assms(1), of "CHR 0x00" 0 0] by auto
  show ?thesis
    using assms(2) by (simp add: py_int_def sp sg pf us sc binary_base_def)
qed





subsection \<open>Chunked framing and Content-Length\<close>

lemma header_line_chunked_mono:
  "header_line line ps = Inr ps' \<Longrightarrow> chunked ps \<Longrightarrow> chunked ps'"
  by (auto simp: header_line_def Let_def split: if_splits option.splits)

lemma header_line_sets_chunked:
  "chunked_line line \<Longrightarrow> header_line line ps = Inr ps' \<Longrightarrow> chunked ps'"
  by (auto simp: header_line_def chunked_line_def names_header_def Let_def
      split: if_splits option.splits)

lemma header_line_length_mono:
  "header_line line ps = Inr ps' \<Longrightarrow> content_length ps \<noteq> None \<Longrightarrow> content_length ps' \<noteq> None"
  by (auto simp: header_line_def Let_def split: if_splits option.splits)

lemma header_line_sets_length:
  "names_header line ''content-length'' \<Longrightarrow> header_line line ps = Inr ps' \<Longrightarrow>
   content_length ps' \<noteq> None"
  by (auto simp: header_line_def names_header_def Let_def split: if_splits option.splits)

lemma header_loop_chunked_mono:
  "header_loop ls ps = Inr ps' \<Longrightarrow> chunked ps \<Longrightarrow> chunked ps'"
proof (induction ls arbitrary: ps)
  case Nil
  then show ?case by simp
next
  case (Cons l ls)
  then show ?case
    by (auto split: if_splits sum.splits dest: header_line_chunked_mono)
qed

lemma header_loop_length_mono:
  "header_loop ls ps = Inr ps' \<Longrightarrow> content_length ps \<noteq> None \<Longrightarrow> content_length ps' \<noteq> None"
proof (induction ls arbitrary: ps)
  case Nil
  then show ?case by simp
next
  case (Cons l ls)
  show ?case
  proof (cases "l = []")
    case True
    then show ?thesis using Cons.prems by simp
  next
    case False
    then obtain ps1 where h: "header_line l ps = Inr ps1" "header_loop ls ps1 = Inr ps'"
      using Cons.prems(1) by (auto split: sum.splits)
    then have "content_length ps1 \<noteq> None"
      using Cons.prems(2) header_line_length_mono by blast
    then show ?thesis using Cons.IH h(2) by blast
  qed
qed

lemma header_loop_sets_chunked:
  "header_loop ls ps = Inr ps' \<Longrightarrow> l \<in> set (lines_read ls) \<Longrightarrow> chunked_line l \<Longrightarrow>
   chunked ps'"
proof (induction ls arbitrary: ps)
  case Nil
  then show ?case by (simp add: lines_read_def)
next
  case (Cons a ls)
  show ?case
  proof (cases "a = []")
    case True
    then show ?thesis using Cons.prems by (simp add: lines_read_def)
  next
    case False
    then obtain ps1 where h: "header_line a ps = Inr ps1" "header_loop ls ps1 = Inr ps'"
      using Cons.prems(1) by (auto split: sum.splits)
    show ?thesis
    proof (cases "l = a")
      case True
      then have "chunked ps1" using h(1) Cons.prems(3) header_line_sets_chunked by blast
      then show ?thesis using h(2) header_loop_chunked_mono by blast
    next
      case ne: False
      then have "l \<in> set (lines_read ls)"
        using Cons.prems(2) False by (simp add: lines_read_def)
      then show ?thesis using Cons.IH h(2) Cons.prems(3) by blast
    qed
  qed
qed

lemma header_loop_sets_length:
  "header_loop ls ps = Inr ps' \<Longrightarrow> l \<in> set (lines_read ls) \<Longrightarrow>
   names_header l ''content-length'' \<Longrightarrow> content_length ps' \<noteq> None"
proof (induction ls arbitrary: ps)
  case Nil
  then show ?case by (simp add: lines_read_def)
next
  case (Cons a ls)
  show ?case
  proof (cases "a = []")
    case True
    then show ?thesis using Cons.prems by (simp add: lines_read_def)
  next
    case False
    then obtain ps1 where h: "header_line a ps = Inr ps1" "header_loop ls ps1 = Inr ps'"
      using Cons.prems(1) by (auto split: sum.splits)
    show ?thesis
    proof (cases "l = a")
      case True
      then have "content_length ps1 \<noteq> None"
        using h(1) Cons.prems(3) header_line_sets_length by blast
      then show ?thesis using h(2) header_loop_length_mono by blast
    next
      case ne: False
      then have "l \<in> set (lines_read ls)"
        using Cons.prems(2) False by (simp add: lines_read_def)
      then show ?thesis using Cons.IH h(2) Cons.prems(3) by blast
    qed
  qed
qed

lemma parse_head_loop:
  "parse_head hb = Inr ps \<Longrightarrow> \<exists>ps0. header_loop (header_lines hb) ps0 = Inr ps"
  by (auto simp: parse_head_def Let_def split: if_splits option.splits)

text \<open>
  C9. When the header lines that the parser reads hold a \<open>Transfer-Encoding\<close> header
  containing \<open>chunked\<close> and a \<open>Content-Length\<close> header, and the headers parse, the body is
  what the chunked reader returns on the input after the header block: the announced
  length plays no part.
\<close>

theorem chunked_takes_precedence:
  assumes "readuntil (CRLF @ CRLF) buf = Inr (hb, rest)"
    and "parse_head hb = Inr ps"
    and "l1 \<in> set (lines_read (header_lines hb))" and "chunked_line l1"
    and "l2 \<in> set (lines_read (header_lines hb))" and "names_header l2 ''content-length''"
  shows "chunked ps \<and> content_length ps \<noteq> None
    \<and> parse buf = (case read_chunked rest of
                     Inl e \<Rightarrow> Inl e
                   | Inr (b, rest') \<Rightarrow> Inr (ps\<lparr>body := b\<rparr>, rest'))"
proof -
  obtain ps0 where loop: "header_loop (header_lines hb) ps0 = Inr ps"
    using assms(2) parse_head_loop by blast
  have c: "chunked ps"
    using loop assms(3,4) by (rule header_loop_sets_chunked)
  have n: "content_length ps \<noteq> None"
    using loop assms(5,6) by (rule header_loop_sets_length)
  have "parse buf = parse_body ps rest"
    using assms(1,2) by (simp add: parse_def)
  then show ?thesis using c n by (simp add: parse_body_def)
qed

theorem chunked_takes_precedence_witness:
  "parse (chunked_head @ chunked_tail) = Inr (chunked_parser\<lparr>body := ''Hello, World''\<rparr>, [])
   \<and> content_length chunked_parser = Some 3"
proof -
  have h1: "readuntil (CRLF @ CRLF) (chunked_head @ chunked_tail) = Inr (chunked_head, chunked_tail)"
    by code_simp
  have h2: "parse_head chunked_head = Inr chunked_parser"
    by code_simp
  have h3: "''Transfer-Encoding: chunked'' \<in> set (lines_read (header_lines chunked_head))"
    by code_simp
  have h4: "chunked_line ''Transfer-Encoding: chunked''"
    by code_simp
  have h5: "''Content-Length: 3'' \<in> set (lines_read (header_lines chunked_head))"
    by code_simp
  have h6: "names_header ''Content-Length: 3'' ''content-length''"
    by code_simp
  have h7: "read_chunked chunked_tail = Inr (''Hello, World'', [])"
    by code_simp
  have h8: "content_length chunked_parser = Some 3"
    by (simp add: chunked_parser_def)
  show ?thesis
    using chunked_takes_precedence [OF h1 h2 h3 h4 h5 h6] h7 h8 by simp
qed

section \<open>Properties of the request headers\<close>

subsection \<open>The header lines of a serialized request\<close>

lemma starts_with_LF:
  "CHR 0x0A \<notin> set xs \<Longrightarrow> \<not> starts_with (xs @ CHR 0x0D # ys) [CHR 0x0A]"
  by (cases xs) auto

lemma split_go_no_sep:
  "CHR 0x0A \<notin> set xs \<Longrightarrow> split_go CRLF k cur xs = [rev cur @ xs]"
proof (induction xs arbitrary: cur)
  case Nil
  then show ?case by simp
next
  case (Cons x xs)
  have "\<not> starts_with (x # xs) CRLF"
    using Cons.prems by (cases xs) (auto simp: CRLF_def)
  then show ?case using Cons by simp
qed

lemma split_go_line:
  "CHR 0x0A \<notin> set xs \<Longrightarrow> k < 0 \<Longrightarrow>
   split_go CRLF k cur (xs @ CRLF @ ys) = (rev cur @ xs) # split_go CRLF (k - 1) [] ys"
proof (induction xs arbitrary: cur)
  case Nil
  then show ?case by (simp add: CRLF_def)
next
  case (Cons x xs)
  have "\<not> starts_with (xs @ CHR 0x0D # CHR 0x0A # ys) [CHR 0x0A]"
    using Cons.prems(1) starts_with_LF [of xs] by simp
  then have "\<not> starts_with (x # xs @ CRLF @ ys) CRLF"
    by (simp add: CRLF_def)
  then show ?case using Cons by simp
qed

lemma split_go_lines:
  "\<forall>l \<in> set ls. CHR 0x0A \<notin> set l \<Longrightarrow> CHR 0x0A \<notin> set final \<Longrightarrow> k < 0 \<Longrightarrow>
   split_go CRLF k [] (concat (map (\<lambda>l. l @ CRLF) ls) @ final) = ls @ [final]"
proof (induction ls arbitrary: k)
  case Nil
  then show ?case by (simp add: split_go_no_sep)
next
  case (Cons l ls)
  have "split_go CRLF k [] (l @ CRLF @ concat (map (\<lambda>l. l @ CRLF) ls) @ final)
      = l # split_go CRLF (k - 1) [] (concat (map (\<lambda>l. l @ CRLF) ls) @ final)"
    using Cons.prems split_go_line [of l k "[]"] by simp
  then show ?case using Cons by simp
qed

lemma find_at_line:
  "CHR 0x0A \<notin> set xs \<Longrightarrow> find_at CRLF k (xs @ CRLF @ ys) = int (k + length xs)"
proof (induction xs arbitrary: k)
  case Nil
  then show ?case by (simp add: CRLF_def)
next
  case (Cons x xs)
  have "\<not> starts_with (xs @ CHR 0x0D # CHR 0x0A # ys) [CHR 0x0A]"
    using Cons.prems starts_with_LF [of xs] by simp
  then have "\<not> starts_with (x # xs @ CRLF @ ys) CRLF"
    by (simp add: CRLF_def)
  then show ?case using Cons by simp
qed

lemma find_at_end_line:
  "CHR 0x0A \<notin> set l \<Longrightarrow>
   find_at (CRLF @ CRLF) k (l @ CRLF @ rest)
     = (if starts_with rest CRLF then int (k + length l)
        else find_at (CRLF @ CRLF) (k + length l + 2) rest)"
proof (induction l arbitrary: k)
  case Nil
  show ?case by (cases rest) (auto simp: CRLF_def)
next
  case (Cons x l)
  have "\<not> starts_with (l @ CHR 0x0D # CHR 0x0A # rest) [CHR 0x0A]"
    using Cons.prems starts_with_LF [of l] by simp
  then have "\<not> starts_with (l @ CRLF @ rest) (CHR 0x0A # CRLF)"
    by (cases "l @ CRLF @ rest") (auto simp: CRLF_def)
  then have "\<not> starts_with (x # l @ CRLF @ rest) (CRLF @ CRLF)"
    by (simp add: CRLF_def)
  then show ?case using Cons by simp
qed

lemma starts_with_line:
  "CHR 0x0A \<notin> set l \<Longrightarrow> l \<noteq> [] \<Longrightarrow> \<not> starts_with (l @ CRLF @ rest) CRLF"
proof (cases l)
  case Nil
  assume "l \<noteq> []"
  then show ?thesis using Nil by simp
next
  case (Cons x xs)
  assume "CHR 0x0A \<notin> set l"
  then show ?thesis using Cons by (cases xs) (auto simp: CRLF_def)
qed

lemma find_at_block:
  "\<forall>l \<in> set (l0 # ls). CHR 0x0A \<notin> set l \<and> l \<noteq> [] \<Longrightarrow>
   find_at (CRLF @ CRLF) k (concat (map (\<lambda>l. l @ CRLF) (l0 # ls)) @ CRLF @ rest)
     = int (k + length (concat (map (\<lambda>l. l @ CRLF) (l0 # ls)))) - 2"
proof (induction ls arbitrary: l0 k)
  case Nil
  then show ?case
    using find_at_end_line [of l0 k "CRLF @ rest"] by (simp add: CRLF_def)
next
  case (Cons l1 ls)
  let ?tail = "concat (map (\<lambda>l. l @ CRLF) (l1 # ls)) @ CRLF @ rest"
  have ns: "\<not> starts_with ?tail CRLF"
    using Cons.prems starts_with_line [of l1 "concat (map (\<lambda>l. l @ CRLF) ls) @ CRLF @ rest"]
    by simp
  have "find_at (CRLF @ CRLF) k (l0 @ CRLF @ ?tail)
      = find_at (CRLF @ CRLF) (k + length l0 + 2) ?tail"
    using Cons.prems ns find_at_end_line [of l0 k ?tail] by simp
  also have "\<dots> = int (k + length l0 + 2 + length (concat (map (\<lambda>l. l @ CRLF) (l1 # ls)))) - 2"
    using Cons.IH [of l1 "k + length l0 + 2"] Cons.prems by simp
  finally show ?case by (simp add: CRLF_def)
qed

lemma find_at_colon:
  "CHR '':'' \<notin> set xs \<Longrightarrow> find_at '':'' k (xs @ CHR '':'' # ys) = int (k + length xs)"
  by (induction xs arbitrary: k) auto

lemma header_block_serialized:
  assumes "\<forall>l \<in> set (l0 # ls). CHR 0x0A \<notin> set l \<and> l \<noteq> []"
  shows "header_block (concat (map (\<lambda>l. l @ CRLF) (l0 # ls)) @ CRLF @ rest)
           = concat (map (\<lambda>l. l @ CRLF) (l0 # ls)) @ CRLF"
proof -
  let ?c = "concat (map (\<lambda>l. l @ CRLF) (l0 # ls))"
  have f: "bytes_find (?c @ CRLF @ rest) (CRLF @ CRLF) = int (length ?c) - 2"
    using find_at_block [OF assms, of 0 rest] by (simp add: bytes_find_def)
  have "2 \<le> length ?c" by (simp add: CRLF_def)
  then have "nat (int (length ?c) - 2) + 4 = length (?c @ CRLF)"
    by (simp add: CRLF_def)
  then have "take (nat (bytes_find (?c @ CRLF @ rest) (CRLF @ CRLF)) + 4) (?c @ CRLF @ rest)
      = ?c @ CRLF"
    unfolding f by (metis append.assoc append_eq_conv_conj)
  then show ?thesis by (simp only: header_block_def)
qed

lemma slice_between:
  "slice (p @ f @ q) (int (length p)) (- int (length q) - 2) = take (length f - 2) f"
proof -
  let ?n = "length (p @ f @ q)"
  have l: "py_index ?n (int (length p)) = length p"
    by (simp add: py_index_def)
  have h: "py_index ?n (- int (length q) - 2) = length p + length f - 2"
    by (simp add: py_index_def)
  have "take (length p + length f - 2 - length p) (drop (length p) (p @ f @ q))
      = take (length f - 2) f"
    by simp
  then show ?thesis
    unfolding slice_def Let_def l h .
qed

lemma header_lines_serialized:
  assumes "CHR 0x0A \<notin> set l0" and "\<forall>l \<in> set ls. CHR 0x0A \<notin> set l"
  shows "header_lines (l0 @ CRLF @ concat (map (\<lambda>l. l @ CRLF) ls) @ CRLF)
           = (if ls = [] then [[]] else ls)"
proof -
  let ?f = "concat (map (\<lambda>l. l @ CRLF) ls)"
  let ?hb = "l0 @ CRLF @ ?f @ CRLF"
  have e: "bytes_find ?hb CRLF = int (length l0)"
    using assms(1) find_at_line [of l0 0 "?f @ CRLF"] by (simp add: bytes_find_def)
  have "slice ((l0 @ CRLF) @ ?f @ CRLF) (int (length (l0 @ CRLF))) (- int (length CRLF) - 2)
      = take (length ?f - 2) ?f"
    by (rule slice_between)
  then have sl: "slice ?hb (int (length l0) + 2) (- 4) = take (length ?f - 2) ?f"
    by (simp add: CRLF_def add.commute)
  show ?thesis
  proof (cases ls rule: rev_cases)
    case Nil
    then show ?thesis
      using e sl by (simp add: header_lines_def split_bytes_def)
  next
    case (snoc ls' l)
    have "?f = (concat (map (\<lambda>l. l @ CRLF) ls') @ l) @ CRLF"
      using snoc by simp
    then have "take (length ?f - 2) ?f = concat (map (\<lambda>l. l @ CRLF) ls') @ l"
      by (simp add: CRLF_def)
    moreover have "split_go CRLF (- 1) [] (concat (map (\<lambda>l. l @ CRLF) ls') @ l) = ls' @ [l]"
      using assms(2) snoc split_go_lines [of ls' l "- 1"] by simp
    ultimately show ?thesis
      using e sl snoc by (simp add: header_lines_def split_bytes_def)
  qed
qed

lemma lines_read_all: "\<forall>l \<in> set ls. l \<noteq> [] \<Longrightarrow> lines_read ls = ls"
  by (simp add: lines_read_def takeWhile_eq_all_conv)

lemma sent_fields_serialized:
  assumes "CHR 0x0A \<notin> set l0" and "l0 \<noteq> []"
    and "\<forall>l \<in> set ls. CHR 0x0A \<notin> set l \<and> l \<noteq> []"
  shows "sent_fields (l0 @ CRLF @ concat (map (\<lambda>l. l @ CRLF) ls) @ CRLF @ rest) = ls"
proof -
  have "header_block (concat (map (\<lambda>l. l @ CRLF) (l0 # ls)) @ CRLF @ rest)
      = concat (map (\<lambda>l. l @ CRLF) (l0 # ls)) @ CRLF"
    using assms by (intro header_block_serialized) simp
  then have hb: "header_block (l0 @ CRLF @ concat (map (\<lambda>l. l @ CRLF) ls) @ CRLF @ rest)
      = l0 @ CRLF @ concat (map (\<lambda>l. l @ CRLF) ls) @ CRLF"
    by simp
  have hl: "header_lines (l0 @ CRLF @ concat (map (\<lambda>l. l @ CRLF) ls) @ CRLF)
      = (if ls = [] then [[]] else ls)"
    using assms by (intro header_lines_serialized) simp_all
  show ?thesis
  proof (cases "ls = []")
    case True
    then show ?thesis
      unfolding sent_fields_def hb hl by (simp add: lines_read_def)
  next
    case False
    then show ?thesis
      unfolding sent_fields_def hb hl using assms(3) by (simp add: lines_read_all)
  qed
qed

lemma keys_dict_set: "fst ` set (dict_set k v d) = insert k (fst ` set d)"
proof (induction d)
  case Nil
  then show ?case by simp
next
  case (Cons x d)
  then show ?case by (cases x) (simp add: insert_commute)
qed

lemma distinct_dict_set:
  "distinct (map fst d) \<Longrightarrow> distinct (map fst (dict_set k v d))"
proof (induction d)
  case Nil
  then show ?case by simp
next
  case (Cons x d)
  then show ?case by (cases x) (auto simp: keys_dict_set)
qed

lemma filter_dict_set_same:
  "distinct (map fst d) \<Longrightarrow> filter (\<lambda>kv. fst kv = k) (dict_set k v d) = [(k, v)]"
proof (induction d)
  case Nil
  then show ?case by simp
next
  case (Cons x d)
  obtain k' v' where x: "x = (k', v')" by (cases x) auto
  show ?case
  proof (cases "k' = k")
    case True
    then have "k \<notin> fst ` set d" using Cons.prems x by auto
    then have "filter (\<lambda>kv. fst kv = k) d = []"
      by (auto simp: filter_empty_conv)
    then show ?thesis using True x by simp
  next
    case False
    then show ?thesis using Cons x by simp
  qed
qed

lemma distinct_set_default:
  "distinct (map fst h) \<Longrightarrow> distinct (map fst (set_default k v h))"
  by (simp add: set_default_def distinct_dict_set)

lemma distinct_dict_merge:
  "distinct (map fst d) \<Longrightarrow> distinct (map fst (dict_merge d e))"
  unfolding dict_merge_def
proof (induction e arbitrary: d)
  case Nil
  then show ?case by simp
next
  case (Cons x e)
  then show ?case by (cases x) (simp add: distinct_dict_set)
qed

lemma distinct_required_headers:
  "distinct (map fst d) \<Longrightarrow> distinct (map fst (required_headers hst prt d))"
  by (simp add: required_headers_def distinct_set_default)

lemma distinct_merged_headers:
  "distinct (map fst (default_headers s)) \<Longrightarrow> distinct (map fst (merged_headers s hs))"
  by (cases hs) (auto simp: merged_headers_def distinct_dict_merge)

lemma build_headers_lines:
  "build_headers hs = Inr bs \<Longrightarrow> bs = concat (map (\<lambda>l. l @ CRLF) (map field_line hs))"
proof (induction hs arbitrary: bs)
  case Nil
  then show ?case by simp
next
  case (Cons x hs)
  obtain k v where x: "x = (k, v)" by (cases x) auto
  show ?case
    using Cons x by (auto simp: encode_ascii_def field_line_def split: sum.splits if_splits)
qed

lemma build_serialized:
  assumes "build m path h body_opt = Inr bs"
  shows "bs = (m @ '' '' @ path @ '' HTTP/1.1'') @ CRLF
           @ concat (map (\<lambda>l. l @ CRLF) (map field_line h)) @ CRLF
           @ (case body_opt of None \<Rightarrow> [] | Some b \<Rightarrow> b)"
proof -
  obtain hb where hb: "build_headers h = Inr hb"
    and bs: "bs = m @ '' '' @ path @ '' HTTP/1.1'' @ CRLF @ hb @ CRLF
              @ (case body_opt of None \<Rightarrow> [] | Some b \<Rightarrow> b)"
    using assms by (auto simp: build_def encode_ascii_def split: sum.splits if_splits)
  show ?thesis
    using bs build_headers_lines [OF hb] by simp
qed

lemma set_dict_set: "set (dict_set k v d) \<subseteq> insert (k, v) (set d)"
  by (induction d) (auto split: if_splits)

lemma str_nat_digits: "set (str_nat n) \<subseteq> set ''0123456789''"
proof (induction n rule: str_nat.induct)
  case (1 n)
  have d: "digit_char m \<in> set ''0123456789''" if "m < 10" for m
    using that nth_mem [of m "''0123456789''"] by (simp add: digit_char_def)
  show ?case
  proof (cases "n < 10")
    case True
    then show ?thesis using d [of n] by (subst str_nat.simps) simp
  next
    case False
    then have "set (str_nat (n div 10)) \<subseteq> set ''0123456789''" using 1 by simp
    moreover have "digit_char (n mod 10) \<in> set ''0123456789''" using d [of "n mod 10"] by simp
    ultimately show ?thesis using False by (subst str_nat.simps) simp
  qed
qed

lemma no_line_break_str_int: "0 \<le> i \<Longrightarrow> no_line_break (str_int i)"
  using str_nat_digits [of "nat i"] by (auto simp: no_line_break_def str_int_def)

lemma colon_free_str_int: "0 \<le> i \<Longrightarrow> CHR '':'' \<notin> set (str_int i)"
  using str_nat_digits [of "nat i"] by (auto simp: str_int_def)

lemma upper_char_line_break:
  "c' \<in> set (upper_char c) \<Longrightarrow> c' = CHR 0x0D \<or> c' = CHR 0x0A \<Longrightarrow> c = c'"
proof -
  assume a: "c' \<in> set (upper_char c)" and b: "c' = CHR 0x0D \<or> c' = CHR 0x0A"
  show ?thesis
  proof (cases "map_of (zip ''abcdefghijklmnopqrstuvwxyz'' ''ABCDEFGHIJKLMNOPQRSTUVWXYZ'') c")
    case None
    then show ?thesis using a b by (auto simp: upper_char_def split: if_splits)
  next
    case (Some u)
    then have "u \<in> set ''ABCDEFGHIJKLMNOPQRSTUVWXYZ''"
      by (meson map_of_SomeD set_zip_rightD)
    moreover have "c' = u" using a Some by (simp add: upper_char_def)
    ultimately show ?thesis using b by auto
  qed
qed

lemma no_line_break_upper: "no_line_break m \<Longrightarrow> no_line_break (upper m)"
  by (auto simp: no_line_break_def upper_def dest: upper_char_line_break)

lemma names_header_field_line:
  assumes "CHR '':'' \<notin> set (fst kv)"
  shows "names_header (field_line kv) name \<longleftrightarrow> fst kv \<noteq> [] \<and> lower (fst kv) = name"
proof -
  have f: "bytes_find (field_line kv) '':'' = int (length (fst kv))"
    using find_at_colon [OF assms, of 0 "CHR '' '' # snd kv"]
    by (simp add: bytes_find_def field_line_def)
  have "slice_to (field_line kv) (int (length (fst kv))) = fst kv"
    by (simp add: slice_to_def py_index_def field_line_def)
  then show ?thesis
    unfolding names_header_def f by auto
qed

lemma filter_field_lines:
  assumes "\<forall>kv \<in> set h. CHR '':'' \<notin> set (fst kv)" and "name \<noteq> []"
  shows "filter (\<lambda>l. names_header l name) (map field_line h)
           = map field_line (filter (\<lambda>kv. lower (fst kv) = name) h)"
proof -
  have "filter (\<lambda>l. names_header l name) (map field_line h)
      = map field_line (filter (\<lambda>kv. names_header (field_line kv) name) h)"
    by (simp add: filter_map comp_def)
  also have "filter (\<lambda>kv. names_header (field_line kv) name) h
      = filter (\<lambda>kv. lower (fst kv) = name) h"
    using assms by (intro filter_cong) (auto simp: names_header_field_line lower_def)
  finally show ?thesis .
qed

lemma encode_body_cases:
  "encode_body lib a h = (body_opt, h') \<Longrightarrow>
   h' = h \<or> h' = dict_set ''Content-Type'' ''application/json'' h
   \<or> h' = dict_set ''Content-Type'' ''application/x-www-form-urlencoded'' h"
  by (auto simp: encode_body_def split: option.splits body_data.splits)

lemma lower_content_type: "lower ''Content-Type'' \<noteq> ''content-length''"
  by (simp add: lower_def lower_char_def)

lemma lower_content_length: "lower ''Content-Length'' = ''content-length''"
  by (simp add: lower_def lower_char_def)

lemma plain_content_type:
  "plain_field (''Content-Type'', ''application/json'')"
  "plain_field (''Content-Type'', ''application/x-www-form-urlencoded'')"
  by (simp_all add: plain_field_def no_line_break_def)

lemma plain_content_length: "plain_field (''Content-Length'', str_int (int n))"
  using no_line_break_str_int [of "int n"]
  by (simp add: plain_field_def no_line_break_def)

lemma encode_body_entries:
  assumes "encode_body lib a h = (body_opt, h')" and "kv \<in> set h'"
  shows "kv \<in> set h \<or> kv = (''Content-Type'', ''application/json'')
    \<or> kv = (''Content-Type'', ''application/x-www-form-urlencoded'')"
proof -
  consider "h' = h" | "h' = dict_set ''Content-Type'' ''application/json'' h"
    | "h' = dict_set ''Content-Type'' ''application/x-www-form-urlencoded'' h"
    using encode_body_cases [OF assms(1)] by blast
  then show ?thesis
  proof cases
    case 1
    then show ?thesis using assms(2) by simp
  next
    case 2
    then show ?thesis
      using assms(2) set_dict_set [of "''Content-Type''" "''application/json''" h] by blast
  next
    case 3
    then show ?thesis
      using assms(2)
        set_dict_set [of "''Content-Type''" "''application/x-www-form-urlencoded''" h]
      by blast
  qed
qed

lemma encode_body_plain:
  assumes "encode_body lib a h = (body_opt, h')" and "\<forall>kv \<in> set h. plain_field kv"
  shows "\<forall>kv \<in> set h'. plain_field kv"
proof
  fix kv
  assume "kv \<in> set h'"
  then show "plain_field kv"
    using encode_body_entries [OF assms(1)] assms(2) plain_content_type by blast
qed

lemma encode_body_names:
  assumes "encode_body lib a h = (body_opt, h')" and "kv \<in> set h'"
    and "lower (fst kv) = ''content-length''"
  shows "kv \<in> set h"
proof -
  have "kv \<noteq> (''Content-Type'', v)" for v
    using assms(3) lower_content_type by auto
  then show ?thesis
    using encode_body_entries [OF assms(1,2)] by blast
qed

lemma set_content_length_plain:
  assumes "\<forall>kv \<in> set h. plain_field kv"
  shows "\<forall>kv \<in> set (set_content_length body_opt h). plain_field kv"
proof (cases body_opt)
  case None
  then show ?thesis using assms by (simp add: set_content_length_def)
next
  case (Some b)
  show ?thesis
  proof (cases "b = []")
    case True
    then show ?thesis using assms Some by (simp add: set_content_length_def)
  next
    case False
    have "set (set_content_length body_opt h)
        \<subseteq> insert (''Content-Length'', str_int (int (length b))) (set h)"
      using Some False set_dict_set [of "''Content-Length''" "str_int (int (length b))" h]
      by (simp add: set_content_length_def)
    then show ?thesis
      using assms plain_content_length [of "length b"] by blast
  qed
qed

lemma sent_fields_build:
  assumes "build m path h body_opt = Inr bs"
    and "no_line_break m" and "no_line_break path" and "\<forall>kv \<in> set h. plain_field kv"
  shows "sent_fields bs = map field_line h"
proof -
  let ?l0 = "m @ '' '' @ path @ '' HTTP/1.1''"
  have l0: "CHR 0x0A \<notin> set ?l0" "?l0 \<noteq> []"
    using assms(2,3) by (simp_all add: no_line_break_def)
  have ls: "\<forall>l \<in> set (map field_line h). CHR 0x0A \<notin> set l \<and> l \<noteq> []"
    using assms(4) by (auto simp: field_line_def plain_field_def no_line_break_def)
  show ?thesis
    unfolding build_serialized [OF assms(1)]
    using l0 ls by (rule sent_fields_serialized)
qed
lemma headers_before_body_distinct:
  assumes "auth_arg a = None" and "auth s = None"
    and "distinct (map fst (default_headers s))"
  shows "distinct (map fst (headers_before_body s a parsed))"
proof -
  have hb: "headers_before_body s a parsed =
      required_headers (url_host parsed) (effective_port parsed) (merged_headers s (headers_arg a))"
    using assms(1,2) by (simp add: headers_before_body_def apply_auth_def)
  show ?thesis
    unfolding hb using assms(3) by (simp add: distinct_required_headers distinct_merged_headers)
qed

subsection \<open>Content-Length\<close>

text \<open>
  C6 as stated fails on both sides, and in the number of fields. A body that is set but
  empty is sent with no \<open>Content-Length\<close> line; a request without a body is sent with the
  \<open>Content-Length\<close> that the caller put among its headers; and a request with the body
  \<open>k=v\<close> whose caller supplied a header named \<open>content-length\<close> is sent with two such
  lines, the caller's and then the client's.
\<close>

theorem content_length_not_always:
  "snd (snd (prepare toy_stdlib new_session
        ((default_args ''POST'' ''http://example.org/x'')\<lparr>data := Some (Raw [])\<rparr>)
        (urlparse toy_stdlib ''http://example.org/x''))) = Some []
   \<and> content_length_lines (request_bytes toy_stdlib new_session
        ((default_args ''POST'' ''http://example.org/x'')\<lparr>data := Some (Raw [])\<rparr>)) = Inr []
   \<and> snd (snd (prepare toy_stdlib new_session
        ((default_args ''GET'' ''http://example.org/x'')
           \<lparr>headers_arg := Some [(''Content-Length'', ''5'')]\<rparr>)
        (urlparse toy_stdlib ''http://example.org/x''))) = None
   \<and> content_length_lines (request_bytes toy_stdlib new_session
        ((default_args ''GET'' ''http://example.org/x'')
           \<lparr>headers_arg := Some [(''Content-Length'', ''5'')]\<rparr>))
       = Inr [''Content-Length: 5'']
   \<and> content_length_lines (request_bytes toy_stdlib new_session
        (post_x\<lparr>headers_arg := Some [(''content-length'', ''99'')]\<rparr>))
       = Inr [''content-length: 99'', ''Content-Length: 3'']"
  by code_simp

text \<open>
  C6, amended, on the bytes that are sent. Take a request that the builder serializes,
  whose method and path have no CR and no LF, and whose headers before the body is encoded
  (the session's defaults, the caller's headers, the five required defaults, what
  authentication adds) are plain: no CR or LF in a name or a value, no colon in a name.
  The client checks none of this. When the body is absent or empty and none of these
  headers is named \<open>Content-Length\<close> in any letter case, no header line of the request is
  named \<open>Content-Length\<close>. When the encoded body has \<open>N > 0\<close> bytes, no name occurs
  twice among these headers (they are a \<open>dict\<close>), and none of them is named
  \<open>Content-Length\<close> in another spelling than this one, exactly one header line of the
  request is named \<open>Content-Length\<close>, and it is \<open>Content-Length: N\<close>.
\<close>

theorem content_length_header:
  "prepare lib s a parsed = (path, h, body_opt)
   \<and> build (upper (http_method a)) path h body_opt = Inr bs
   \<and> no_line_break (http_method a) \<and> no_line_break path
   \<and> (\<forall>kv \<in> set (headers_before_body s a parsed). plain_field kv)
   \<longrightarrow>
     ((body_opt = None \<or> body_opt = Some [])
        \<and> (\<forall>kv \<in> set (headers_before_body s a parsed). lower (fst kv) \<noteq> ''content-length'')
        \<longrightarrow> filter (\<lambda>l. names_header l ''content-length'') (sent_fields bs) = [])
   \<and> (body_opt = Some b \<and> b \<noteq> [] \<and> distinct (map fst (headers_before_body s a parsed))
        \<and> (\<forall>kv \<in> set (headers_before_body s a parsed).
              lower (fst kv) = ''content-length'' \<longrightarrow> fst kv = ''Content-Length'')
        \<longrightarrow> filter (\<lambda>l. names_header l ''content-length'') (sent_fields bs)
              = [''Content-Length: '' @ str_int (int (length b))])"
proof (intro impI)
  let ?hbb = "headers_before_body s a parsed"
  assume asm: "prepare lib s a parsed = (path, h, body_opt)
   \<and> build (upper (http_method a)) path h body_opt = Inr bs
   \<and> no_line_break (http_method a) \<and> no_line_break path
   \<and> (\<forall>kv \<in> set ?hbb. plain_field kv)"
  obtain h' where e: "encode_body lib a ?hbb = (body_opt, h')"
    and h: "h = set_content_length body_opt h'"
    using asm by (auto simp: prepare_def split: prod.splits)
  have ph': "\<forall>kv \<in> set h'. plain_field kv"
    using e asm encode_body_plain [of lib a ?hbb body_opt h'] by blast
  have ph: "\<forall>kv \<in> set h. plain_field kv"
    unfolding h using ph' by (rule set_content_length_plain)
  have nm: "no_line_break (upper (http_method a))"
    using asm no_line_break_upper by blast
  have sf: "sent_fields bs = map field_line h"
    using asm nm ph sent_fields_build [of "upper (http_method a)" path h body_opt bs]
    by blast
  have colon: "\<forall>kv \<in> set h. CHR '':'' \<notin> set (fst kv)"
    using ph by (simp add: plain_field_def)
  have fl: "filter (\<lambda>l. names_header l ''content-length'') (sent_fields bs)
      = map field_line (filter (\<lambda>kv. lower (fst kv) = ''content-length'') h)"
    unfolding sf using colon by (intro filter_field_lines) simp_all
  have 1: "filter (\<lambda>l. names_header l ''content-length'') (sent_fields bs) = []"
    if c: "(body_opt = None \<or> body_opt = Some [])
        \<and> (\<forall>kv \<in> set ?hbb. lower (fst kv) \<noteq> ''content-length'')"
  proof -
    have "h = h'" using c h by (auto simp: set_content_length_def)
    moreover have "\<forall>kv \<in> set h'. lower (fst kv) \<noteq> ''content-length''"
      using c encode_body_names [OF e] by blast
    ultimately have "filter (\<lambda>kv. lower (fst kv) = ''content-length'') h = []"
      by (simp add: filter_empty_conv)
    then show ?thesis unfolding fl by simp
  qed
  have 2: "filter (\<lambda>l. names_header l ''content-length'') (sent_fields bs)
              = [''Content-Length: '' @ str_int (int (length b))]"
    if c: "body_opt = Some b \<and> b \<noteq> [] \<and> distinct (map fst ?hbb)
        \<and> (\<forall>kv \<in> set ?hbb. lower (fst kv) = ''content-length'' \<longrightarrow> fst kv = ''Content-Length'')"
  proof -
    let ?n = "str_int (int (length b))"
    have hd: "h = dict_set ''Content-Length'' ?n h'"
      using c h by (simp add: set_content_length_def)
    have d': "distinct (map fst h')"
      using c encode_body_cases [OF e] by (auto simp: distinct_dict_set)
    have ex: "lower (fst kv) = ''content-length'' \<longleftrightarrow> fst kv = ''Content-Length''"
      if "kv \<in> set h" for kv
    proof (cases "kv = (''Content-Length'', ?n)")
      case True
      then show ?thesis by (simp add: lower_content_length)
    next
      case False
      then have in': "kv \<in> set h'"
        using that hd set_dict_set [of "''Content-Length''" ?n h'] by blast
      show ?thesis
      proof
        assume l: "lower (fst kv) = ''content-length''"
        then have "kv \<in> set ?hbb" using encode_body_names [OF e in'] by simp
        then show "fst kv = ''Content-Length''" using c l by blast
      next
        assume "fst kv = ''Content-Length''"
        then show "lower (fst kv) = ''content-length''" by (simp add: lower_content_length)
      qed
    qed
    have "filter (\<lambda>kv. lower (fst kv) = ''content-length'') h
        = filter (\<lambda>kv. fst kv = ''Content-Length'') h"
      using ex by (intro filter_cong) auto
    also have "\<dots> = [(''Content-Length'', ?n)]"
      unfolding hd using d' by (rule filter_dict_set_same)
    finally show ?thesis unfolding fl by (simp add: field_line_def)
  qed
  show "((body_opt = None \<or> body_opt = Some [])
        \<and> (\<forall>kv \<in> set ?hbb. lower (fst kv) \<noteq> ''content-length'')
        \<longrightarrow> filter (\<lambda>l. names_header l ''content-length'') (sent_fields bs) = [])
   \<and> (body_opt = Some b \<and> b \<noteq> [] \<and> distinct (map fst ?hbb)
        \<and> (\<forall>kv \<in> set ?hbb.
              lower (fst kv) = ''content-length'' \<longrightarrow> fst kv = ''Content-Length'')
        \<longrightarrow> filter (\<lambda>l. names_header l ''content-length'') (sent_fields bs)
              = [''Content-Length: '' @ str_int (int (length b))])"
    using 1 2 by blast
qed

theorem content_length_header_witness:
  "filter (\<lambda>l. names_header l ''content-length'') (sent_fields post_x_bytes)
     = [''Content-Length: 3'']
   \<and> filter (\<lambda>l. names_header l ''content-length'') (sent_fields tls_get_bytes) = []"
proof -
  let ?u = "urlparse toy_stdlib (url post_x)"
  let ?p = "prepare toy_stdlib new_session post_x ?u"
  let ?v = "urlparse toy_stdlib (url tls_get)"
  let ?q = "prepare toy_stdlib new_session tls_get ?v"
  have e: "?p = (fst ?p, fst (snd ?p), snd (snd ?p))" "?q = (fst ?q, fst (snd ?q), snd (snd ?q))"
    by simp_all
  have b1: "build (upper (http_method post_x)) (fst ?p) (fst (snd ?p)) (snd (snd ?p))
      = Inr post_x_bytes"
    by code_simp
  have b2: "build (upper (http_method tls_get)) (fst ?q) (fst (snd ?q)) (snd (snd ?q))
      = Inr tls_get_bytes"
    by code_simp
  have n1: "no_line_break (http_method post_x)" "no_line_break (fst ?p)"
    "\<forall>kv \<in> set (headers_before_body new_session post_x ?u). plain_field kv"
    by code_simp+
  have n2: "no_line_break (http_method tls_get)" "no_line_break (fst ?q)"
    "\<forall>kv \<in> set (headers_before_body new_session tls_get ?v). plain_field kv"
    by code_simp+
  have c1: "snd (snd ?p) = Some ''k=v''" "''k=v'' \<noteq> []"
    "distinct (map fst (headers_before_body new_session post_x ?u))"
    "\<forall>kv \<in> set (headers_before_body new_session post_x ?u).
        lower (fst kv) = ''content-length'' \<longrightarrow> fst kv = ''Content-Length''"
    by code_simp+
  have c2: "snd (snd ?q) = None"
    "\<forall>kv \<in> set (headers_before_body new_session tls_get ?v).
        lower (fst kv) \<noteq> ''content-length''"
    by code_simp+
  have n: "str_int (int (length ''k=v'')) = ''3''" by code_simp
  note t1 = content_length_header [where lib = toy_stdlib and s = new_session and a = post_x
      and parsed = ?u and path = "fst ?p" and h = "fst (snd ?p)" and body_opt = "snd (snd ?p)"
      and bs = post_x_bytes and b = "''k=v''"]
  note t2 = content_length_header [where lib = toy_stdlib and s = new_session and a = tls_get
      and parsed = ?v and path = "fst ?q" and h = "fst (snd ?q)" and body_opt = "snd (snd ?q)"
      and bs = tls_get_bytes]
  have "filter (\<lambda>l. names_header l ''content-length'') (sent_fields post_x_bytes)
      = [''Content-Length: '' @ str_int (int (length ''k=v''))]"
    using t1 e(1) b1 n1 c1 by blast
  then have 1: "filter (\<lambda>l. names_header l ''content-length'') (sent_fields post_x_bytes)
      = [''Content-Length: 3'']"
    by (simp only: n) simp
  have 2: "filter (\<lambda>l. names_header l ''content-length'') (sent_fields tls_get_bytes) = []"
    using t2 e(2) b2 n2 c2 by blast
  show ?thesis using 1 2 by simp
qed

subsection \<open>The Host header\<close>

text \<open>
  C3 fails on the code. For \<open>http://example.org:443/\<close> the port is not the default of the
  scheme, yet the \<open>Host\<close> header is sent without it: the test is \<open>port in (80, 443)\<close>
  whatever the scheme.
\<close>

theorem host_header_ignores_scheme:
  "dict_get
     (fst (snd (prepare toy_stdlib new_session (default_args ''GET'' ''http://example.org:443/'')
        (urlparse toy_stdlib ''http://example.org:443/''))))
     ''Host'' = Some ''example.org''
   \<and> scheme (urlparse toy_stdlib ''http://example.org:443/'') = ''http''
   \<and> effective_port (urlparse toy_stdlib ''http://example.org:443/'') = 443"
  by code_simp

section \<open>The pools of a session\<close>



















section \<open>Redirects\<close>

text \<open>
  C5. When the exchange of a request on an open session returns a response that is
  followed, the request is the request for the next hop, whose method is \<open>GET\<close> after a
  303 and the method of the call after 301, 302, 307 and 308. When the response is a
  redirect and no redirect is left to follow, the request returns that response and the
  session and the world as the exchange left them: nothing more is sent.
\<close>

theorem redirect_policy:
  "\<not> session_closed s \<and> exchange net lib a s w = (Inr resp, s1, w1) \<longrightarrow>
     (follows a resp \<and> resp_status_code resp = 303 \<longrightarrow>
        request net lib a s w = request net lib (next_request lib a resp) s1 w1
        \<and> http_method (next_request lib a resp) = ''GET'')
   \<and> (follows a resp
        \<and> (resp_status_code resp = 301 \<or> resp_status_code resp = 302
             \<or> resp_status_code resp = 307 \<or> resp_status_code resp = 308) \<longrightarrow>
        request net lib a s w = request net lib (next_request lib a resp) s1 w1
        \<and> http_method (next_request lib a resp) = http_method a)
   \<and> (is_redirect (resp_status_code resp) \<and> max_redirects a \<le> 0 \<longrightarrow>
        request net lib a s w = (Inr resp, s1, w1))"
proof (intro impI)
  assume h: "\<not> session_closed s \<and> exchange net lib a s w = (Inr resp, s1, w1)"
  have f: "request net lib a s w = request net lib (next_request lib a resp) s1 w1"
    if "follows a resp"
    using h that by (subst request.simps) simp
  have n: "request net lib a s w = (Inr resp, s1, w1)" if "\<not> follows a resp"
    using h that by (subst request.simps) simp
  show "(follows a resp \<and> resp_status_code resp = 303 \<longrightarrow>
        request net lib a s w = request net lib (next_request lib a resp) s1 w1
        \<and> http_method (next_request lib a resp) = ''GET'')
   \<and> (follows a resp
        \<and> (resp_status_code resp = 301 \<or> resp_status_code resp = 302
             \<or> resp_status_code resp = 307 \<or> resp_status_code resp = 308) \<longrightarrow>
        request net lib a s w = request net lib (next_request lib a resp) s1 w1
        \<and> http_method (next_request lib a resp) = http_method a)
   \<and> (is_redirect (resp_status_code resp) \<and> max_redirects a \<le> 0 \<longrightarrow>
        request net lib a s w = (Inr resp, s1, w1))"
    using f n by (auto simp: next_request_def Let_def follows_def)
qed

theorem redirect_policy_witness:
  "fst (request toy_network toy_stdlib post_x new_session new_world) = Inr found_response
   \<and> http_method (next_request toy_stdlib post_x see_other_response) = ''GET''
   \<and> map (\<lambda>(w, b). take 4 b)
        (wire (snd (snd (request toy_network toy_stdlib post_x new_session new_world))))
       = [''POST'', ''GET '']"
proof -
  let ?e1 = "exchange toy_network toy_stdlib post_x new_session new_world"
  let ?a2 = "next_request toy_stdlib post_x see_other_response"
  let ?e2 = "exchange toy_network toy_stdlib ?a2 (fst (snd ?e1)) (snd (snd ?e1))"
  have o1: "\<not> session_closed new_session" by (simp add: new_session_def)
  have r1: "fst ?e1 = Inr see_other_response" by code_simp
  have e1: "?e1 = (Inr see_other_response, fst (snd ?e1), snd (snd ?e1))"
    using r1 by (metis prod.collapse)
  have f1: "follows post_x see_other_response" by code_simp
  have c1: "resp_status_code see_other_response = 303" by (simp add: see_other_response_def)
  have hop1: "request toy_network toy_stdlib post_x new_session new_world
        = request toy_network toy_stdlib ?a2 (fst (snd ?e1)) (snd (snd ?e1))"
    and m: "http_method ?a2 = ''GET''"
    using redirect_policy [of new_session toy_network toy_stdlib post_x new_world
        see_other_response "fst (snd ?e1)" "snd (snd ?e1)"] o1 e1 f1 c1
    by blast+
  have o2: "\<not> session_closed (fst (snd ?e1))" by code_simp
  have r2: "fst ?e2 = Inr found_response" by code_simp
  have e2: "?e2 = (Inr found_response, fst (snd ?e2), snd (snd ?e2))"
    using r2 by (metis prod.collapse)
  have x2: "is_redirect (resp_status_code found_response)" "max_redirects ?a2 \<le> 0"
    by code_simp+
  have hop2: "request toy_network toy_stdlib ?a2 (fst (snd ?e1)) (snd (snd ?e1))
        = (Inr found_response, fst (snd ?e2), snd (snd ?e2))"
    using redirect_policy [of "fst (snd ?e1)" toy_network toy_stdlib ?a2 "snd (snd ?e1)"
        found_response "fst (snd ?e2)" "snd (snd ?e2)"] o2 e2 x2
    by blast
  have w: "map (\<lambda>(w, b). take 4 b) (wire (snd (snd ?e2))) = [''POST'', ''GET '']"
    by code_simp
  show ?thesis
    using hop1 hop2 m w by simp
qed

section \<open>Properties of Response.iter\_content\<close>

lemma slice_chunk:
  "0 \<le> j \<Longrightarrow> 0 < cs \<Longrightarrow> slice xs j (j + cs) = take (nat cs) (drop (nat j) xs)"
  unfolding slice_def py_index_def Let_def
  by (simp add: nat_add_distrib min_def)

lemma take_drop_step:
  "0 \<le> i \<Longrightarrow> 0 < cs \<Longrightarrow>
   take (nat cs) (drop (nat i) xs) @ drop (nat (i + cs)) xs = drop (nat i) xs"
proof -
  assume a: "0 \<le> i" "0 < cs"
  have "drop (nat (i + cs)) xs = drop (nat cs) (drop (nat i) xs)"
    using a by (simp add: nat_add_distrib add.commute)
  then show ?thesis by (simp only: append_take_drop_id)
qed

lemma range_up_step:
  "0 < cs \<Longrightarrow> i < n \<Longrightarrow> range_up i n cs = i # range_up (i + cs) n cs"
  by (subst range_up.simps) simp

lemma range_up_stop:
  "\<not> i < n \<Longrightarrow> range_up i n cs = []"
  by (subst range_up.simps) simp

lemma concat_range_up:
  "0 \<le> i \<Longrightarrow> 0 < cs \<Longrightarrow> n = int (length xs) \<Longrightarrow>
   concat (map (\<lambda>j. slice xs j (j + cs)) (range_up i n cs)) = drop (nat i) xs"
proof (induction i n cs rule: range_up.induct)
  case (1 i n cs)
  show ?case
  proof (cases "i < n")
    case True
    have "concat (map (\<lambda>j. slice xs j (j + cs)) (range_up (i + cs) n cs))
          = drop (nat (i + cs)) xs"
      using 1 True by simp
    then show ?thesis
      using 1(2,3) True by (simp add: range_up_step slice_chunk take_drop_step)
  next
    case False
    then show ?thesis using 1(4) by (simp add: range_up_stop)
  qed
qed

lemma butlast_range_up:
  "0 \<le> i \<Longrightarrow> 0 < cs \<Longrightarrow> n = int (length xs) \<Longrightarrow>
   c \<in> set (butlast (map (\<lambda>j. slice xs j (j + cs)) (range_up i n cs))) \<Longrightarrow>
   length c = nat cs"
proof (induction i n cs rule: range_up.induct)
  case (1 i n cs)
  show ?case
  proof (cases "i + cs < n")
    case True
    then have lt: "i < n" using 1(3) by simp
    have len: "length (slice xs i (i + cs)) = nat cs"
      using 1(2,3,4) True by (simp add: slice_chunk)
    have "range_up i n cs = i # range_up (i + cs) n cs"
      using 1(3) lt by (rule range_up_step)
    then have "c = slice xs i (i + cs)
       \<or> c \<in> set (butlast (map (\<lambda>j. slice xs j (j + cs)) (range_up (i + cs) n cs)))"
      using 1(5) by (simp split: if_splits)
    then show ?thesis
    proof
      assume "c = slice xs i (i + cs)"
      then show ?thesis using len by simp
    next
      assume "c \<in> set (butlast (map (\<lambda>j. slice xs j (j + cs)) (range_up (i + cs) n cs)))"
      moreover have "0 \<le> i + cs" using 1(2,3) by simp
      ultimately show ?thesis
        using 1(1) [OF conjI [OF 1(3) lt]] 1(3,4) by blast
    qed
  next
    case False
    then have e: "range_up (i + cs) n cs = []"
      by (simp add: range_up_stop)
    have "range_up i n cs = [] \<or> range_up i n cs = [i]"
    proof (cases "i < n")
      case True
      then show ?thesis using 1(3) e range_up_step [of cs i n] by simp
    next
      case False
      then show ?thesis by (simp add: range_up_stop)
    qed
    then show ?thesis using 1(5) by auto
  qed
qed

lemma iter_content_example:
  "iter_content ''abcdefg'' 3 = Inr [''abc'', ''def'', ''g'']"
  by (simp add: iter_content_def py_range_def range_up_step range_up_stop slice_def py_index_def)

text \<open>
  C10. For a positive \<open>chunk_size\<close>, \<open>iter_content\<close> yields slices whose concatenation
  is the body, and every slice but the last has exactly \<open>chunk_size\<close> bytes.
\<close>

theorem iter_content_concat:
  "0 < chunk_size \<Longrightarrow>
   \<exists>chunks. iter_content content chunk_size = Inr chunks \<and> concat chunks = content
     \<and> (\<forall>c \<in> set (butlast chunks). length c = nat chunk_size)"
proof -
  assume pos: "0 < chunk_size"
  let ?chunks = "map (\<lambda>i. slice content i (i + chunk_size)) (range_up 0 (int (length content)) chunk_size)"
  have "iter_content content chunk_size = Inr ?chunks"
    using pos by (simp add: iter_content_def py_range_def)
  moreover have "concat ?chunks = content"
    using concat_range_up [of 0 chunk_size "int (length content)" content] pos by simp
  moreover have "\<forall>c \<in> set (butlast ?chunks). length c = nat chunk_size"
    using butlast_range_up [of 0 chunk_size "int (length content)" content] pos by blast
  ultimately show ?thesis by blast
qed

theorem iter_content_concat_witness:
  "(0::int) < 3 \<and> (\<exists>chunks. iter_content ''abcdefg'' 3 = Inr chunks \<and> concat chunks = ''abcdefg''
     \<and> (\<forall>c \<in> set (butlast chunks). length c = nat 3))"
  using iter_content_concat [of 3 "''abcdefg''"] by simp

end
